theory Spec2Isabelle
  imports Main
begin

section \<open>Table elements of pkg/sql/catalog/table_elements.go\<close>

text \<open>
  The Go file declares interfaces (\<open>TableElementMaybeMutation\<close>, \<open>Index\<close>,
  \<open>Column\<close>, \<open>Mutation\<close>, \<open>TableDescriptor\<close>) and a handful of functions over
  them. An interface value is embedded as a record holding the results of its
  (side-effect free) accessor methods; interface embedding is record extension.
\<close>

subsection \<open>Mutation identifiers\<close>

text \<open>
  Modelled from the spec: \<open>descpb.MutationID\<close> and its sentinel
  \<open>descpb.InvalidMutationID\<close> are declared outside the file. A mutation id
  identifies the schema-change job an element belongs to; a sentinel invalid
  value marks the elements that are in no mutation.
\<close>

datatype mutationID = InvalidMutationID | JobMutationID nat

subsection \<open>The interface TableElementMaybeMutation\<close>

record tableElementMaybeMutation =
  IsMutation :: bool
  IsRollback :: bool
  MutationID :: mutationID
  WriteAndDeleteOnly :: bool
  DeleteOnly :: bool
  Backfilling :: bool
  Merging :: bool
  Adding :: bool
  Dropped :: bool

subsection \<open>Underlying protobuf descriptors (opaque apart from what is read)\<close>

record indexDescriptor =
  IndexDescID :: nat
  IndexDescName :: string

text \<open>\<open>types.T\<close>: only \<open>TypeMeta.Version\<close> is read.\<close>

record types_T =
  TypeMeta_Version :: nat

text \<open>
  \<open>HasNullDefault\<close> is a method of \<open>descpb.ColumnDescriptor\<close>, declared outside the
  file; its result is a field of the descriptor here.
\<close>

record columnDescriptor =
  ColumnDescID :: nat
  ColumnDescName :: string
  ColumnDescType :: types_T
  Nullable :: bool
  DefaultExpr :: "string option"
  ComputeExpr :: "string option"
  Virtual :: bool
  HasNullDefault :: bool

subsection \<open>The interfaces Index, Column and Mutation\<close>

record index = tableElementMaybeMutation +
  IndexDesc :: indexDescriptor
  IndexOrdinal :: int
  Primary :: bool
  IndexPublic :: bool
  IndexGetID :: nat

record column = tableElementMaybeMutation +
  ColumnDesc :: columnDescriptor
  ColumnOrdinal :: int
  ColumnPublic :: bool
  ColumnGetID :: nat
  GetType :: types_T
  IsNullable :: bool
  HasDefault :: bool
  IsComputed :: bool
  IsVirtual :: bool

record mutation = tableElementMaybeMutation +
  AsColumn :: "column option"
  AsIndex :: "index option"
  MutationOrdinal :: int

subsection \<open>The interface TableDescriptor and IndexOpts\<close>

text \<open>
  \<open>TableDescriptor\<close> and \<open>IndexOpts\<close> are declared in a sibling file of the
  package; the methods and fields the functions below call are the fields here.
\<close>

record tableDescriptor =
  IsPhysicalTable :: bool
  AllIndexes :: "index list"
  ActiveIndexes :: "index list"
  NonDropIndexes :: "index list"
  PartialIndexes :: "index list"
  NonPrimaryIndexes :: "index list"
  PublicNonPrimaryIndexes :: "index list"
  WritableNonPrimaryIndexes :: "index list"
  DeletableNonPrimaryIndexes :: "index list"
  DeleteOnlyNonPrimaryIndexes :: "index list"
  UserDefinedTypeColumns :: "column list"
  AllMutations :: "mutation list"

record indexOpts =
  NonPhysicalPrimaryIndex :: bool
  DropMutations :: bool
  AddMutations :: bool

section \<open>The functions of the file\<close>

subsection \<open>isIndexInSearchSet (lines 511-522)\<close>

definition isIndexInSearchSet :: "tableDescriptor \<Rightarrow> indexOpts \<Rightarrow> index \<Rightarrow> bool" where
  "isIndexInSearchSet desc opts idx =
     (if \<not> NonPhysicalPrimaryIndex opts \<and> Primary idx \<and> \<not> IsPhysicalTable desc then False
      else if \<not> AddMutations opts \<and> Adding idx then False
      else if \<not> DropMutations opts \<and> Dropped idx then False
      else True)"

subsection \<open>ColumnNeedsBackfill (lines 715-736)\<close>

definition ColumnNeedsBackfill :: "column \<Rightarrow> bool" where
  "ColumnNeedsBackfill col =
     (if IsVirtual col then False
      else if Dropped col then True
      else if HasNullDefault (ColumnDesc col) then False
      else HasDefault col \<or> \<not> IsNullable col \<or> IsComputed col)"

subsection \<open>HasConcurrentSchemaChanges (lines 738-746)\<close>

definition HasConcurrentSchemaChanges :: "tableDescriptor \<Rightarrow> bool" where
  "HasConcurrentSchemaChanges table = (length (AllMutations table) > 0)"

subsection \<open>ForEachIndex and its variants over a view (lines 524-597)\<close>

text \<open>
  A visiting callback \<open>func(idx Index) error\<close> is a closure: it may read and change
  state of its own. It is embedded as a function from the index and the state before
  the call to the returned error (\<open>None\<close> is \<open>nil\<close>) and the state after it.
  \<open>iterutil.Done\<close>, which recognises the early-termination signal among the errors, is
  declared in another package and is the parameter \<open>Done\<close>.
\<close>

fun ForEachIndex_loop ::
  "('e \<Rightarrow> bool) \<Rightarrow> tableDescriptor \<Rightarrow> indexOpts \<Rightarrow> index list \<Rightarrow>
     (index \<Rightarrow> 's \<Rightarrow> 'e option \<times> 's) \<Rightarrow> 's \<Rightarrow> 'e option \<times> 's" where
  "ForEachIndex_loop Done desc opts [] f s = (None, s)"
| "ForEachIndex_loop Done desc opts (idx # rest) f s =
     (if \<not> isIndexInSearchSet desc opts idx then ForEachIndex_loop Done desc opts rest f s
      else (case f idx s of
              (Some err, s') \<Rightarrow> if Done err then (None, s') else (Some err, s')
            | (None, s') \<Rightarrow> ForEachIndex_loop Done desc opts rest f s'))"

definition ForEachIndex ::
  "('e \<Rightarrow> bool) \<Rightarrow> tableDescriptor \<Rightarrow> indexOpts \<Rightarrow>
     (index \<Rightarrow> 's \<Rightarrow> 'e option \<times> 's) \<Rightarrow> 's \<Rightarrow> 'e option \<times> 's" where
  "ForEachIndex Done desc opts f s = ForEachIndex_loop Done desc opts (AllIndexes desc) f s"

fun forEachIndex ::
  "('e \<Rightarrow> bool) \<Rightarrow> index list \<Rightarrow> (index \<Rightarrow> 's \<Rightarrow> 'e option \<times> 's) \<Rightarrow> 's \<Rightarrow> 'e option \<times> 's" where
  "forEachIndex Done [] f s = (None, s)"
| "forEachIndex Done (idx # slice) f s =
     (case f idx s of
        (Some err, s') \<Rightarrow> if Done err then (None, s') else (Some err, s')
      | (None, s') \<Rightarrow> forEachIndex Done slice f s')"

definition ForEachActiveIndex where
  "ForEachActiveIndex Done desc f s = forEachIndex Done (ActiveIndexes desc) f s"

definition ForEachNonDropIndex where
  "ForEachNonDropIndex Done desc f s = forEachIndex Done (NonDropIndexes desc) f s"

definition ForEachPartialIndex where
  "ForEachPartialIndex Done desc f s = forEachIndex Done (PartialIndexes desc) f s"

definition ForEachNonPrimaryIndex where
  "ForEachNonPrimaryIndex Done desc f s = forEachIndex Done (NonPrimaryIndexes desc) f s"

definition ForEachPublicNonPrimaryIndex where
  "ForEachPublicNonPrimaryIndex Done desc f s =
     forEachIndex Done (PublicNonPrimaryIndexes desc) f s"

definition ForEachWritableNonPrimaryIndex where
  "ForEachWritableNonPrimaryIndex Done desc f s =
     forEachIndex Done (WritableNonPrimaryIndexes desc) f s"

definition ForEachDeletableNonPrimaryIndex where
  "ForEachDeletableNonPrimaryIndex Done desc f s =
     forEachIndex Done (DeletableNonPrimaryIndexes desc) f s"

definition ForEachDeleteOnlyNonPrimaryIndex where
  "ForEachDeleteOnlyNonPrimaryIndex Done desc f s =
     forEachIndex Done (DeleteOnlyNonPrimaryIndexes desc) f s"

subsection \<open>FindIndex and its variants over a view (lines 599-669)\<close>

text \<open>The returned \<open>Index\<close> is an interface value: \<open>nil\<close> is \<open>None\<close>.\<close>

fun FindIndex_loop ::
  "tableDescriptor \<Rightarrow> indexOpts \<Rightarrow> index list \<Rightarrow> (index \<Rightarrow> bool) \<Rightarrow> index option" where
  "FindIndex_loop desc opts [] test = None"
| "FindIndex_loop desc opts (idx # rest) test =
     (if \<not> isIndexInSearchSet desc opts idx then FindIndex_loop desc opts rest test
      else if test idx then Some idx
      else FindIndex_loop desc opts rest test)"

definition FindIndex ::
  "tableDescriptor \<Rightarrow> indexOpts \<Rightarrow> (index \<Rightarrow> bool) \<Rightarrow> index option" where
  "FindIndex desc opts test = FindIndex_loop desc opts (AllIndexes desc) test"

fun findIndex :: "index list \<Rightarrow> (index \<Rightarrow> bool) \<Rightarrow> index option" where
  "findIndex [] test = None"
| "findIndex (idx # slice) test = (if test idx then Some idx else findIndex slice test)"

definition FindActiveIndex where
  "FindActiveIndex desc test = findIndex (ActiveIndexes desc) test"

definition FindNonDropIndex where
  "FindNonDropIndex desc test = findIndex (NonDropIndexes desc) test"

definition FindPartialIndex where
  "FindPartialIndex desc test = findIndex (PartialIndexes desc) test"

definition FindPublicNonPrimaryIndex where
  "FindPublicNonPrimaryIndex desc test = findIndex (PublicNonPrimaryIndexes desc) test"

definition FindWritableNonPrimaryIndex where
  "FindWritableNonPrimaryIndex desc test = findIndex (WritableNonPrimaryIndexes desc) test"

definition FindDeletableNonPrimaryIndex where
  "FindDeletableNonPrimaryIndex desc test = findIndex (DeletableNonPrimaryIndexes desc) test"

definition FindNonPrimaryIndex where
  "FindNonPrimaryIndex desc test = findIndex (NonPrimaryIndexes desc) test"

definition FindDeleteOnlyNonPrimaryIndex where
  "FindDeleteOnlyNonPrimaryIndex desc test = findIndex (DeleteOnlyNonPrimaryIndexes desc) test"

subsection \<open>UserDefinedTypeColsHaveSameVersion (lines 671-684)\<close>

text \<open>
  \<open>otherCols[i]\<close> is a slice access: out of range it panics, which is the value
  \<open>Inl IndexOutOfRange\<close>. The loop ranges over the first descriptor's columns with
  their positions; the access to the second list comes before the comparison. The
  columns of these lists have a type: \<open>GetType()\<close> is not \<open>nil\<close>.
\<close>

datatype panic = IndexOutOfRange

fun UserDefinedTypeColsHaveSameVersion_loop ::
  "nat \<Rightarrow> column list \<Rightarrow> column list \<Rightarrow> panic + bool" where
  "UserDefinedTypeColsHaveSameVersion_loop i [] otherCols = Inr True"
| "UserDefinedTypeColsHaveSameVersion_loop i (thisCol # rest) otherCols =
     (if i < length otherCols then
        (if TypeMeta_Version (GetType thisCol) \<noteq> TypeMeta_Version (GetType (otherCols ! i))
         then Inr False
         else UserDefinedTypeColsHaveSameVersion_loop (Suc i) rest otherCols)
      else Inl IndexOutOfRange)"

definition UserDefinedTypeColsHaveSameVersion ::
  "tableDescriptor \<Rightarrow> tableDescriptor \<Rightarrow> panic + bool" where
  "UserDefinedTypeColsHaveSameVersion desc otherDesc =
     (let otherCols = UserDefinedTypeColumns otherDesc
      in UserDefinedTypeColsHaveSameVersion_loop 0 (UserDefinedTypeColumns desc) otherCols)"

subsection \<open>ColumnIDToOrdinalMap (lines 686-694)\<close>

text \<open>
  \<open>TableColMap\<close> (a map from column ids to integers, declared in a sibling file) is a
  partial map; \<open>m.Set(k, v)\<close> is the update \<open>m(k \<mapsto> v)\<close> and the zero value is the
  empty map.
\<close>

type_synonym tableColMap = "nat \<rightharpoonup> int"

fun ColumnIDToOrdinalMap_loop :: "tableColMap \<Rightarrow> column list \<Rightarrow> tableColMap" where
  "ColumnIDToOrdinalMap_loop m [] = m"
| "ColumnIDToOrdinalMap_loop m (col # columns) =
     ColumnIDToOrdinalMap_loop (m(ColumnGetID col \<mapsto> ColumnOrdinal col)) columns"

definition ColumnIDToOrdinalMap :: "column list \<Rightarrow> tableColMap" where
  "ColumnIDToOrdinalMap columns = ColumnIDToOrdinalMap_loop Map.empty columns"

section \<open>The descriptor behind the interfaces\<close>

text \<open>
  Modelled from the spec: the implementations of the interfaces (the wrappers that
  compute \<open>IsMutation\<close>, \<open>MutationID\<close>, the sub-phase flags, \<open>Ordinal\<close>, \<open>Primary\<close> and
  \<open>Public\<close> from a \<open>descpb.TableDescriptor\<close>, and that build the collections of all
  indexes and of all columns) are in another package. The spec's data model: an element
  is either public or queued in the mutation sequence; a queued element carries the id of
  its schema-change job, a direction (add or drop), a rollback flag and a sub-phase
  (delete-only, write-and-delete-only, backfilling, merging, or none).
\<close>

datatype direction = ADD | DROP

text \<open>
  Modelled from the spec: the sub-phase of a queued element, one of delete-only,
  write-and-delete-only, backfilling, merging, or none.
\<close>

datatype sub_phase =
  NoSubPhase | DeleteOnlyPhase | WriteAndDeleteOnlyPhase | BackfillingPhase | MergingPhase

text \<open>
  Modelled from the spec: the mutation status of an element, public or queued with the
  number of its schema-change job, its direction, its rollback flag and its sub-phase.
\<close>

datatype mutation_status = PublicElement | QueuedMutation nat direction bool sub_phase

text \<open>
  Modelled from the spec: the mutation-status accessors of an element. A public element
  reports the invalid mutation id and no flag; a queued one reports its job's id, its
  rollback flag, its direction and its sub-phase.
\<close>

fun maybeMutation :: "mutation_status \<Rightarrow> tableElementMaybeMutation" where
  "maybeMutation PublicElement =
     \<lparr>IsMutation = False, IsRollback = False, MutationID = InvalidMutationID,
      WriteAndDeleteOnly = False, DeleteOnly = False, Backfilling = False, Merging = False,
      Adding = False, Dropped = False\<rparr>"
| "maybeMutation (QueuedMutation job dir rollback phase) =
     \<lparr>IsMutation = True, IsRollback = rollback, MutationID = JobMutationID job,
      WriteAndDeleteOnly = (phase = WriteAndDeleteOnlyPhase),
      DeleteOnly = (phase = DeleteOnlyPhase),
      Backfilling = (phase = BackfillingPhase),
      Merging = (phase = MergingPhase),
      Adding = (dir = ADD), Dropped = (dir = DROP)\<rparr>"

text \<open>
  Modelled from the spec: a pending mutation wraps exactly one payload out of six kinds
  and carries the mutation status once; a table descriptor owns its public columns, its
  primary index, its public non-primary indexes and its sequence of pending mutations.
\<close>

datatype mutation_payload =
  is_ColumnPayload: ColumnPayload columnDescriptor
| is_IndexPayload: IndexPayload indexDescriptor
| ConstraintPayload
| PrimaryKeySwapPayload
| ComputedColumnSwapPayload
| MaterializedViewRefreshPayload

text \<open>
  Modelled from the spec: an entry of the mutation sequence, the mutation status fields
  and the payload.
\<close>

record descriptorMutation =
  MutationJob :: nat
  MutationDirection :: direction
  MutationRollback :: bool
  MutationSubPhase :: sub_phase
  MutationPayload :: mutation_payload

text \<open>
  Modelled from the spec: \<open>descpb.TableDescriptor\<close>, of which the doc comments of
  \<open>Ordinal()\<close> name the fields \<open>Columns\<close> (the public columns) and \<open>Indexes\<close> (the public
  non-primary indexes), beside the primary index and the mutation sequence.
\<close>

record descpb_TableDescriptor =
  Columns :: "columnDescriptor list"
  PrimaryIndex :: indexDescriptor
  Indexes :: "indexDescriptor list"
  Mutations :: "descriptorMutation list"

text \<open>Modelled from the spec: the mutation status of an entry of the mutation sequence.\<close>

definition statusOf :: "descriptorMutation \<Rightarrow> mutation_status" where
  "statusOf m =
     QueuedMutation (MutationJob m) (MutationDirection m) (MutationRollback m) (MutationSubPhase m)"

text \<open>
  Modelled from the spec: the index of a descriptor entry (its descriptor, its mutation
  status and whether it is the primary index) at a position of the collection of all
  indexes. The ordinal is the position; the index is public exactly when it is in no
  mutation.
\<close>

definition newIndex :: "nat \<Rightarrow> indexDescriptor \<times> mutation_status \<times> bool \<Rightarrow> index" where
  "newIndex ordinal e =
     (case e of (d, st, prim) \<Rightarrow>
        tableElementMaybeMutation.extend (maybeMutation st)
          (index.fields d (int ordinal) prim (\<not> IsMutation (maybeMutation st)) (IndexDescID d)))"

text \<open>
  Modelled from the spec: the column of a descriptor entry at a position of the
  collection of all columns. The ordinal is the position; the column is public exactly
  when it is in no mutation; the other accessors read the column descriptor.
\<close>

definition newColumn :: "nat \<Rightarrow> columnDescriptor \<times> mutation_status \<Rightarrow> column" where
  "newColumn ordinal e =
     (case e of (d, st) \<Rightarrow>
        tableElementMaybeMutation.extend (maybeMutation st)
          (column.fields d (int ordinal) (\<not> IsMutation (maybeMutation st)) (ColumnDescID d)
             (ColumnDescType d) (Nullable d) (DefaultExpr d \<noteq> None) (ComputeExpr d \<noteq> None)
             (Virtual d)))"

text \<open>
  Modelled from the spec: the indexes of the mutation sequence, in queue order.
\<close>

fun indexMutations :: "descriptorMutation list \<Rightarrow> (indexDescriptor \<times> mutation_status) list" where
  "indexMutations [] = []"
| "indexMutations (m # ms) =
     (case MutationPayload m of
        IndexPayload d \<Rightarrow> (d, statusOf m) # indexMutations ms
      | _ \<Rightarrow> indexMutations ms)"

text \<open>Modelled from the spec: the columns of the mutation sequence, in queue order.\<close>

fun columnMutations :: "descriptorMutation list \<Rightarrow> (columnDescriptor \<times> mutation_status) list" where
  "columnMutations [] = []"
| "columnMutations (m # ms) =
     (case MutationPayload m of
        ColumnPayload d \<Rightarrow> (d, statusOf m) # columnMutations ms
      | _ \<Rightarrow> columnMutations ms)"

text \<open>
  Modelled from the spec: the canonical order of all indexes, the primary index first,
  then the public non-primary indexes, then the indexes of the mutation sequence in queue
  order.
\<close>

definition indexEntries ::
  "descpb_TableDescriptor \<Rightarrow> (indexDescriptor \<times> mutation_status \<times> bool) list" where
  "indexEntries td =
     (PrimaryIndex td, PublicElement, True) #
     map (\<lambda>d. (d, PublicElement, False)) (Indexes td) @
     map (\<lambda>(d, st). (d, st, False)) (indexMutations (Mutations td))"

text \<open>
  Modelled from the spec: the collection of all indexes (\<open>AllIndexes()\<close> of the descriptor's
  implementation), each index with its position as ordinal.
\<close>

definition allIndexes :: "descpb_TableDescriptor \<Rightarrow> index list" where
  "allIndexes td = map (\<lambda>(i, e). newIndex i e) (enumerate 0 (indexEntries td))"

text \<open>
  Modelled from the spec: the canonical order of all columns, the public columns, then
  the columns of the mutation sequence in queue order.
\<close>

definition columnEntries ::
  "descpb_TableDescriptor \<Rightarrow> (columnDescriptor \<times> mutation_status) list" where
  "columnEntries td =
     map (\<lambda>d. (d, PublicElement)) (Columns td) @ columnMutations (Mutations td)"

text \<open>
  Modelled from the spec: the collection of all columns, each column with its position as
  ordinal.
\<close>

definition allColumns :: "descpb_TableDescriptor \<Rightarrow> column list" where
  "allColumns td = map (\<lambda>(i, e). newColumn i e) (enumerate 0 (columnEntries td))"

section \<open>Notions used to state the properties\<close>

text \<open>
  \<open>nilRun f slice s\<close> runs the callback over the whole slice, from the state \<open>s\<close>, as
  long as it returns \<open>nil\<close>: \<open>Some\<close> of the final state when every call returned \<open>nil\<close>,
  \<open>None\<close> as soon as one returns an error.
\<close>

fun nilRun :: "(index \<Rightarrow> 's \<Rightarrow> 'e option \<times> 's) \<Rightarrow> index list \<Rightarrow> 's \<Rightarrow> 's option" where
  "nilRun f [] s = Some s"
| "nilRun f (idx # slice) s =
     (case f idx s of (None, s') \<Rightarrow> nilRun f slice s' | (Some err, s') \<Rightarrow> None)"

text \<open>
  \<open>visiting f\<close> is the callback \<open>f\<close> that, besides, appends each index it is called on to
  a log: the log after a traversal is the sequence of the visited elements.
\<close>

fun visiting ::
  "(index \<Rightarrow> 's \<Rightarrow> 'e option \<times> 's) \<Rightarrow> index \<Rightarrow> index list \<times> 's \<Rightarrow>
     'e option \<times> index list \<times> 's" where
  "visiting f idx (log, s) = (case f idx s of (r, s') \<Rightarrow> (r, (log @ [idx], s')))"

text \<open>The version of the type metadata of a column's type.\<close>

abbreviation (input) ver :: "column \<Rightarrow> nat" where
  "ver c \<equiv> TypeMeta_Version (GetType c)"

text \<open>The ordinals of a descriptor's indexes are canonical: each is its position.\<close>

definition canonicalOrdinals :: "tableDescriptor \<Rightarrow> bool" where
  "canonicalOrdinals desc =
     (map IndexOrdinal (AllIndexes desc) = map int [0..<length (AllIndexes desc)])"

section \<open>Example values\<close>

definition exampleColumn :: column where
  "exampleColumn =
     \<lparr>IsMutation = True, IsRollback = False, MutationID = JobMutationID 1,
      WriteAndDeleteOnly = False, DeleteOnly = True, Backfilling = False, Merging = False,
      Adding = True, Dropped = False,
      ColumnDesc = \<lparr>ColumnDescID = 3, ColumnDescName = ''c'',
        ColumnDescType = \<lparr>TypeMeta_Version = 0\<rparr>, Nullable = True, DefaultExpr = None,
        ComputeExpr = None, Virtual = False, HasNullDefault = False\<rparr>,
      ColumnOrdinal = 2, ColumnPublic = False, ColumnGetID = 3,
      GetType = \<lparr>TypeMeta_Version = 0\<rparr>,
      IsNullable = True, HasDefault = False, IsComputed = False, IsVirtual = False\<rparr>"

definition exampleIndex :: "nat \<Rightarrow> index" where
  "exampleIndex n =
     \<lparr>IsMutation = False, IsRollback = False, MutationID = InvalidMutationID,
      WriteAndDeleteOnly = False, DeleteOnly = False, Backfilling = False, Merging = False,
      Adding = False, Dropped = False,
      IndexDesc = \<lparr>IndexDescID = Suc n, IndexDescName = ''idx''\<rparr>,
      IndexOrdinal = int n, Primary = (n = 0), IndexPublic = True, IndexGetID = Suc n\<rparr>"

definition exampleDesc :: tableDescriptor where
  "exampleDesc =
     \<lparr>IsPhysicalTable = True,
      AllIndexes = [exampleIndex 0, exampleIndex 1, exampleIndex 2],
      ActiveIndexes = [exampleIndex 0, exampleIndex 1, exampleIndex 2],
      NonDropIndexes = [exampleIndex 0, exampleIndex 1, exampleIndex 2],
      PartialIndexes = [],
      NonPrimaryIndexes = [exampleIndex 1, exampleIndex 2],
      PublicNonPrimaryIndexes = [exampleIndex 1, exampleIndex 2],
      WritableNonPrimaryIndexes = [exampleIndex 1, exampleIndex 2],
      DeletableNonPrimaryIndexes = [exampleIndex 1, exampleIndex 2],
      DeleteOnlyNonPrimaryIndexes = [],
      UserDefinedTypeColumns = [],
      AllMutations = []\<rparr>"

definition exampleOpts :: indexOpts where
  "exampleOpts = \<lparr>NonPhysicalPrimaryIndex = False, DropMutations = False, AddMutations = False\<rparr>"

text \<open>
  A callback that counts its calls and returns the error \<open>err\<close> on the index of
  ordinal \<open>n\<close>, \<open>nil\<close> on the others.
\<close>

definition errorOn :: "string \<Rightarrow> int \<Rightarrow> index \<Rightarrow> nat \<Rightarrow> string option \<times> nat" where
  "errorOn err n idx calls = (if IndexOrdinal idx = n then Some err else None, Suc calls)"

definition exampleColumnDesc :: "nat \<Rightarrow> columnDescriptor" where
  "exampleColumnDesc n =
     \<lparr>ColumnDescID = n, ColumnDescName = ''col'', ColumnDescType = \<lparr>TypeMeta_Version = 0\<rparr>,
      Nullable = True, DefaultExpr = None, ComputeExpr = None, Virtual = False,
      HasNullDefault = False\<rparr>"

text \<open>
  A descriptor with a primary index, one public secondary index, and a mutation sequence
  that adds an index, drops a column and drops an index.
\<close>

definition exampleTableDescriptor :: descpb_TableDescriptor where
  "exampleTableDescriptor =
     \<lparr>Columns = [exampleColumnDesc 1, exampleColumnDesc 2],
      PrimaryIndex = \<lparr>IndexDescID = 1, IndexDescName = ''primary''\<rparr>,
      Indexes = [\<lparr>IndexDescID = 2, IndexDescName = ''secondary''\<rparr>],
      Mutations =
        [\<lparr>MutationJob = 1, MutationDirection = ADD, MutationRollback = False,
          MutationSubPhase = BackfillingPhase,
          MutationPayload = IndexPayload \<lparr>IndexDescID = 3, IndexDescName = ''added''\<rparr>\<rparr>,
         \<lparr>MutationJob = 1, MutationDirection = DROP, MutationRollback = False,
          MutationSubPhase = WriteAndDeleteOnlyPhase,
          MutationPayload = ColumnPayload (exampleColumnDesc 3)\<rparr>,
         \<lparr>MutationJob = 2, MutationDirection = DROP, MutationRollback = False,
          MutationSubPhase = DeleteOnlyPhase,
          MutationPayload = IndexPayload \<lparr>IndexDescID = 4, IndexDescName = ''dropped''\<rparr>\<rparr>]\<rparr>"

definition mutatingDesc :: tableDescriptor where
  "mutatingDesc = exampleDesc\<lparr>AllIndexes := allIndexes exampleTableDescriptor\<rparr>"

definition versionedColumn :: "nat \<Rightarrow> column" where
  "versionedColumn v = exampleColumn\<lparr>GetType := \<lparr>TypeMeta_Version = v\<rparr>\<rparr>"

definition udtDesc :: "column list \<Rightarrow> tableDescriptor" where
  "udtDesc cols = exampleDesc\<lparr>UserDefinedTypeColumns := cols\<rparr>"

definition numberedColumn :: "nat \<Rightarrow> int \<Rightarrow> column" where
  "numberedColumn k ordinal = exampleColumn\<lparr>ColumnGetID := k, ColumnOrdinal := ordinal\<rparr>"

section \<open>Properties\<close>

subsection \<open>ColumnNeedsBackfill\<close>

text \<open>
  C1. For every column, \<open>ColumnNeedsBackfill\<close> is false when the column is virtual,
  whatever its direction, nullability and defaults; otherwise true when the column is
  in a drop mutation; otherwise false when its default is exactly NULL; otherwise true
  exactly when the column has a default expression, is not nullable or is computed.
\<close>

theorem ColumnNeedsBackfill_policy:
  "(IsVirtual col \<longrightarrow> ColumnNeedsBackfill col = False) \<and>
   (\<not> IsVirtual col \<and> Dropped col \<longrightarrow> ColumnNeedsBackfill col = True) \<and>
   (\<not> IsVirtual col \<and> \<not> Dropped col \<and> HasNullDefault (ColumnDesc col) \<longrightarrow>
      ColumnNeedsBackfill col = False) \<and>
   (\<not> IsVirtual col \<and> \<not> Dropped col \<and> \<not> HasNullDefault (ColumnDesc col) \<longrightarrow>
      ColumnNeedsBackfill col = (HasDefault col \<or> \<not> IsNullable col \<or> IsComputed col))"
  by (simp add: ColumnNeedsBackfill_def)

theorem ColumnNeedsBackfill_policy_witness:
  "ColumnNeedsBackfill
     (exampleColumn\<lparr>IsVirtual := True, Dropped := True, HasDefault := True\<rparr>) = False \<and>
   ColumnNeedsBackfill (exampleColumn\<lparr>Adding := False, Dropped := True\<rparr>) = True \<and>
   ColumnNeedsBackfill
     (exampleColumn\<lparr>ColumnDesc := (ColumnDesc exampleColumn)\<lparr>HasNullDefault := True\<rparr>,
        HasDefault := True\<rparr>) = False \<and>
   ColumnNeedsBackfill (exampleColumn\<lparr>IsNullable := False\<rparr>) = True \<and>
   ColumnNeedsBackfill (exampleColumn\<lparr>IsComputed := True\<rparr>) = True \<and>
   ColumnNeedsBackfill exampleColumn = False"
  using
    ColumnNeedsBackfill_policy
      [of "exampleColumn\<lparr>IsVirtual := True, Dropped := True, HasDefault := True\<rparr>"]
    ColumnNeedsBackfill_policy [of "exampleColumn\<lparr>Adding := False, Dropped := True\<rparr>"]
    ColumnNeedsBackfill_policy
      [of "exampleColumn\<lparr>ColumnDesc := (ColumnDesc exampleColumn)\<lparr>HasNullDefault := True\<rparr>,
        HasDefault := True\<rparr>"]
    ColumnNeedsBackfill_policy [of "exampleColumn\<lparr>IsNullable := False\<rparr>"]
    ColumnNeedsBackfill_policy [of "exampleColumn\<lparr>IsComputed := True\<rparr>"]
    ColumnNeedsBackfill_policy [of "exampleColumn"]
  by (simp add: exampleColumn_def)

subsection \<open>HasConcurrentSchemaChanges\<close>

text \<open>
  C8. For every table descriptor, \<open>HasConcurrentSchemaChanges\<close> is true exactly when
  the descriptor's mutation sequence is not empty.
\<close>

theorem HasConcurrentSchemaChanges_iff:
  "HasConcurrentSchemaChanges table \<longleftrightarrow> AllMutations table \<noteq> []"
  by (simp add: HasConcurrentSchemaChanges_def)

subsection \<open>Traversal with early termination\<close>

lemma ForEachIndex_loop_filter:
  "ForEachIndex_loop Done desc opts xs f s =
     forEachIndex Done (filter (isIndexInSearchSet desc opts) xs) f s"
  by (induction xs arbitrary: s) (auto split: prod.splits option.splits)

lemma forEachIndex_all_nil:
  "nilRun f slice s = Some s' \<Longrightarrow> forEachIndex Done slice f s = (None, s')"
  by (induction slice arbitrary: s) (auto split: prod.splits option.splits)

lemma forEachIndex_stops:
  "nilRun f pre s = Some s1 \<Longrightarrow> f x s1 = (Some e, s2) \<Longrightarrow>
   forEachIndex Done (pre @ x # post) f s = (if Done e then None else Some e, s2)"
  by (induction pre arbitrary: s) (auto split: prod.splits option.splits)

lemma nilRun_visiting:
  "nilRun f xs s = Some s' \<Longrightarrow> nilRun (visiting f) xs (log, s) = Some (log @ xs, s')"
  by (induction xs arbitrary: s log) (auto split: prod.splits option.splits)

lemma forEachIndex_visiting_result:
  "forEachIndex Done slice (visiting f) (log, s) = (r, (log', s')) \<Longrightarrow>
   forEachIndex Done slice f s = (r, s')"
  by (induction slice arbitrary: s log) (auto split: prod.splits option.splits)

lemma forEachIndex_visiting_prefix:
  "forEachIndex Done slice (visiting f) (log, s) = (r, (log', s')) \<Longrightarrow>
   \<exists>vis rest. log' = log @ vis \<and> slice = vis @ rest"
proof (induction slice arbitrary: s log)
  case Nil
  then show ?case by simp
next
  case (Cons idx slice)
  obtain r1 s1 where f: "f idx s = (r1, s1)" by (cases "f idx s")
  show ?case
  proof (cases r1)
    case None
    with Cons.prems f have "forEachIndex Done slice (visiting f) (log @ [idx], s1) = (r, (log', s'))"
      by simp
    from Cons.IH [OF this] obtain vis rest where "log' = (log @ [idx]) @ vis" "slice = vis @ rest"
      by blast
    then have "log' = log @ (idx # vis) \<and> idx # slice = (idx # vis) @ rest" by simp
    then show ?thesis by blast
  next
    case (Some e)
    with Cons.prems f have "log' = log @ [idx]"
      by (auto split: if_splits)
    then have "log' = log @ [idx] \<and> idx # slice = [idx] @ slice" by simp
    then show ?thesis by blast
  qed
qed

lemma forEachIndex_visiting_stops:
  assumes "nilRun f pre s = Some s1" and "f x s1 = (Some e, s2)"
  shows "forEachIndex Done (pre @ x # post) (visiting f) (log, s) =
           (if Done e then None else Some e, (log @ pre @ [x], s2))"
proof -
  have "nilRun (visiting f) pre (log, s) = Some (log @ pre, s1)"
    using assms(1) by (rule nilRun_visiting)
  moreover have "visiting f x (log @ pre, s1) = (Some e, (log @ pre @ [x], s2))"
    using assms(2) by simp
  ultimately show ?thesis by (rule forEachIndex_stops)
qed

lemma forEachIndex_visiting_all_nil:
  assumes "nilRun f slice s = Some s'"
  shows "forEachIndex Done slice (visiting f) (log, s) = (None, (log @ slice, s'))"
  using nilRun_visiting [OF assms] by (rule forEachIndex_all_nil)

lemma canonical_filter_sorted:
  assumes "canonicalOrdinals desc"
  shows "sorted_wrt (<) (map IndexOrdinal (filter P (AllIndexes desc)))"
proof -
  have "sorted_wrt (<) (map int [0..<length (AllIndexes desc)])"
    by (simp add: sorted_wrt_map)
  then have "sorted_wrt (<) (map IndexOrdinal (AllIndexes desc))"
    using assms by (simp add: canonicalOrdinals_def)
  then have "sorted_wrt (\<lambda>a b. IndexOrdinal a < IndexOrdinal b) (AllIndexes desc)"
    by (simp add: sorted_wrt_map)
  then have "sorted_wrt (\<lambda>a b. IndexOrdinal a < IndexOrdinal b) (filter P (AllIndexes desc))"
    by (rule sorted_wrt_filter)
  then show ?thesis by (simp add: sorted_wrt_map)
qed

text \<open>
  C2. For every table descriptor and every visiting callback, \<open>ForEachIndex\<close> and the
  variants over a view call the callback on the elements in their order in the list
  (for \<open>ForEachIndex\<close>: the indexes of the search set, in the order of all indexes,
  which is the order of the ordinals). When the callback returns an error on an element,
  after \<open>nil\<close> on the elements before it, the traversal stops right after that element:
  the visited elements are those up to and including it, the state is the one the
  callback left, and the result is \<open>nil\<close> when the error is the early-termination
  signal, the error itself otherwise. When the callback returns \<open>nil\<close> on every
  element, all are visited and the result is \<open>nil\<close>.
\<close>

theorem ForEachIndex_early_termination:
  fixes f :: "index \<Rightarrow> 's \<Rightarrow> 'e option \<times> 's"
  shows
  "(\<forall>pre x post s s1 e s2.
      filter (isIndexInSearchSet desc opts) (AllIndexes desc) = pre @ x # post \<and>
      nilRun f pre s = Some s1 \<and> f x s1 = (Some e, s2) \<longrightarrow>
        ForEachIndex Done desc opts f s = (if Done e then None else Some e, s2) \<and>
        ForEachIndex Done desc opts (visiting f) ([], s) =
          (if Done e then None else Some e, (pre @ [x], s2))) \<and>
   (\<forall>s s'.
      nilRun f (filter (isIndexInSearchSet desc opts) (AllIndexes desc)) s = Some s' \<longrightarrow>
        ForEachIndex Done desc opts f s = (None, s') \<and>
        ForEachIndex Done desc opts (visiting f) ([], s) =
          (None, (filter (isIndexInSearchSet desc opts) (AllIndexes desc), s'))) \<and>
   (canonicalOrdinals desc \<longrightarrow>
      (\<forall>s. sorted_wrt (<)
         (map IndexOrdinal (fst (snd (ForEachIndex Done desc opts (visiting f) ([], s))))))) \<and>
   (\<forall>slice pre x post s s1 e s2.
      slice = pre @ x # post \<and> nilRun f pre s = Some s1 \<and> f x s1 = (Some e, s2) \<longrightarrow>
        forEachIndex Done slice f s = (if Done e then None else Some e, s2) \<and>
        forEachIndex Done slice (visiting f) ([], s) =
          (if Done e then None else Some e, (pre @ [x], s2))) \<and>
   (\<forall>slice s s'.
      nilRun f slice s = Some s' \<longrightarrow>
        forEachIndex Done slice f s = (None, s') \<and>
        forEachIndex Done slice (visiting f) ([], s) = (None, (slice, s'))) \<and>
   ForEachActiveIndex Done desc f = forEachIndex Done (ActiveIndexes desc) f \<and>
   ForEachNonDropIndex Done desc f = forEachIndex Done (NonDropIndexes desc) f \<and>
   ForEachPartialIndex Done desc f = forEachIndex Done (PartialIndexes desc) f \<and>
   ForEachNonPrimaryIndex Done desc f = forEachIndex Done (NonPrimaryIndexes desc) f \<and>
   ForEachPublicNonPrimaryIndex Done desc f =
     forEachIndex Done (PublicNonPrimaryIndexes desc) f \<and>
   ForEachWritableNonPrimaryIndex Done desc f =
     forEachIndex Done (WritableNonPrimaryIndexes desc) f \<and>
   ForEachDeletableNonPrimaryIndex Done desc f =
     forEachIndex Done (DeletableNonPrimaryIndexes desc) f \<and>
   ForEachDeleteOnlyNonPrimaryIndex Done desc f =
     forEachIndex Done (DeleteOnlyNonPrimaryIndexes desc) f"
proof -
  let ?searched = "filter (isIndexInSearchSet desc opts) (AllIndexes desc)"
  have unfold: "\<And>(g :: index \<Rightarrow> 't \<Rightarrow> 'e option \<times> 't) t.
      ForEachIndex Done desc opts g t = forEachIndex Done ?searched g t"
    by (simp add: ForEachIndex_def ForEachIndex_loop_filter)
  have stop: "\<forall>slice pre x post s s1 e s2.
      slice = pre @ x # post \<and> nilRun f pre s = Some s1 \<and> f x s1 = (Some e, s2) \<longrightarrow>
        forEachIndex Done slice f s = (if Done e then None else Some e, s2) \<and>
        forEachIndex Done slice (visiting f) ([], s) =
          (if Done e then None else Some e, (pre @ [x], s2))"
    using forEachIndex_stops [of f _ _ _ _ _ _ Done]
      forEachIndex_visiting_stops [of f _ _ _ _ _ _ Done _ "[]"]
    by simp
  have nil: "\<forall>slice s s'.
      nilRun f slice s = Some s' \<longrightarrow>
        forEachIndex Done slice f s = (None, s') \<and>
        forEachIndex Done slice (visiting f) ([], s) = (None, (slice, s'))"
    using forEachIndex_all_nil [of f _ _ _ Done]
      forEachIndex_visiting_all_nil [of f _ _ _ Done "[]"]
    by simp
  have ord: "canonicalOrdinals desc \<longrightarrow>
      (\<forall>s. sorted_wrt (<)
         (map IndexOrdinal (fst (snd (ForEachIndex Done desc opts (visiting f) ([], s))))))"
  proof (intro impI allI)
    fix s
    assume c: "canonicalOrdinals desc"
    obtain r log s' where run: "forEachIndex Done ?searched (visiting f) ([], s) = (r, (log, s'))"
      by (metis prod.exhaust)
    from forEachIndex_visiting_prefix [OF run] obtain rest where "?searched = log @ rest"
      by auto
    with canonical_filter_sorted [OF c, of "isIndexInSearchSet desc opts"]
    have "sorted_wrt (<) (map IndexOrdinal log)"
      by (simp add: sorted_wrt_append)
    with run show "sorted_wrt (<)
         (map IndexOrdinal (fst (snd (ForEachIndex Done desc opts (visiting f) ([], s)))))"
      by (simp add: unfold)
  qed
  have variants:
    "ForEachActiveIndex Done desc f = forEachIndex Done (ActiveIndexes desc) f"
    "ForEachNonDropIndex Done desc f = forEachIndex Done (NonDropIndexes desc) f"
    "ForEachPartialIndex Done desc f = forEachIndex Done (PartialIndexes desc) f"
    "ForEachNonPrimaryIndex Done desc f = forEachIndex Done (NonPrimaryIndexes desc) f"
    "ForEachPublicNonPrimaryIndex Done desc f =
       forEachIndex Done (PublicNonPrimaryIndexes desc) f"
    "ForEachWritableNonPrimaryIndex Done desc f =
       forEachIndex Done (WritableNonPrimaryIndexes desc) f"
    "ForEachDeletableNonPrimaryIndex Done desc f =
       forEachIndex Done (DeletableNonPrimaryIndexes desc) f"
    "ForEachDeleteOnlyNonPrimaryIndex Done desc f =
       forEachIndex Done (DeleteOnlyNonPrimaryIndexes desc) f"
    by (rule ext, simp add: ForEachActiveIndex_def ForEachNonDropIndex_def
        ForEachPartialIndex_def ForEachNonPrimaryIndex_def ForEachPublicNonPrimaryIndex_def
        ForEachWritableNonPrimaryIndex_def ForEachDeletableNonPrimaryIndex_def
        ForEachDeleteOnlyNonPrimaryIndex_def)+
  show ?thesis
    unfolding unfold
    using stop nil ord [unfolded unfold] variants by blast
qed


theorem ForEachIndex_early_termination_witness:
  "ForEachIndex (\<lambda>e. e = ''stop'') exampleDesc exampleOpts (visiting (errorOn ''stop'' 1)) ([], 0) =
     (None, ([exampleIndex 0, exampleIndex 1], 2)) \<and>
   ForEachIndex (\<lambda>e. e = ''stop'') exampleDesc exampleOpts (visiting (errorOn ''boom'' 1)) ([], 0) =
     (Some ''boom'', ([exampleIndex 0, exampleIndex 1], 2)) \<and>
   ForEachIndex (\<lambda>e. e = ''stop'') exampleDesc exampleOpts (visiting (errorOn ''stop'' 7)) ([], 0) =
     (None, ([exampleIndex 0, exampleIndex 1, exampleIndex 2], 3)) \<and>
   forEachIndex (\<lambda>e. e = ''stop'') [exampleIndex 0, exampleIndex 1, exampleIndex 2]
       (visiting (errorOn ''stop'' 1)) ([], 0) =
     (None, ([exampleIndex 0, exampleIndex 1], 2)) \<and>
   forEachIndex (\<lambda>e. e = ''stop'') [exampleIndex 0, exampleIndex 1, exampleIndex 2]
       (visiting (errorOn ''stop'' 7)) ([], 0) =
     (None, ([exampleIndex 0, exampleIndex 1, exampleIndex 2], 3)) \<and>
   sorted_wrt (<)
     (map IndexOrdinal
        (fst (snd (ForEachIndex (\<lambda>e. e = ''stop'') exampleDesc exampleOpts
                     (visiting (errorOn ''stop'' 1)) ([], 0)))))"
proof -
  let ?Done = "\<lambda>e. e = ''stop''"
  let ?all = "[exampleIndex 0, exampleIndex 1, exampleIndex 2]"
  note stop = ForEachIndex_early_termination
    [of exampleDesc exampleOpts "errorOn ''stop'' 1" ?Done]
  note boom = ForEachIndex_early_termination
    [of exampleDesc exampleOpts "errorOn ''boom'' 1" ?Done]
  note never = ForEachIndex_early_termination
    [of exampleDesc exampleOpts "errorOn ''stop'' 7" ?Done]
  have searched:
    "filter (isIndexInSearchSet exampleDesc exampleOpts) (AllIndexes exampleDesc) =
       [exampleIndex 0] @ exampleIndex 1 # [exampleIndex 2]"
    by (simp add: isIndexInSearchSet_def exampleDesc_def exampleOpts_def exampleIndex_def)
  have canonical: "canonicalOrdinals exampleDesc"
    by (simp add: canonicalOrdinals_def exampleDesc_def exampleIndex_def upt_rec)
  have pre: "nilRun (errorOn err 1) [exampleIndex 0] 0 = Some 1" for err
    by (simp add: errorOn_def exampleIndex_def)
  have hit: "errorOn err 1 (exampleIndex 1) 1 = (Some err, 2)" for err
    by (simp add: errorOn_def exampleIndex_def)
  have nil: "nilRun (errorOn ''stop'' 7) ?all 0 = Some 3"
    by (simp add: errorOn_def exampleIndex_def)
  have a: "ForEachIndex ?Done exampleDesc exampleOpts (visiting (errorOn ''stop'' 1)) ([], 0) =
     (None, ([exampleIndex 0, exampleIndex 1], 2))"
    using stop [THEN conjunct1, rule_format, of "[exampleIndex 0]" "exampleIndex 1"
        "[exampleIndex 2]" 0 1 "''stop''" 2] searched pre hit
    by simp
  have b: "ForEachIndex ?Done exampleDesc exampleOpts (visiting (errorOn ''boom'' 1)) ([], 0) =
     (Some ''boom'', ([exampleIndex 0, exampleIndex 1], 2))"
    using boom [THEN conjunct1, rule_format, of "[exampleIndex 0]" "exampleIndex 1"
        "[exampleIndex 2]" 0 1 "''boom''" 2] searched pre hit
    by simp
  have c: "ForEachIndex ?Done exampleDesc exampleOpts (visiting (errorOn ''stop'' 7)) ([], 0) =
     (None, (?all, 3))"
    using never [THEN conjunct2, THEN conjunct1, rule_format, of 0 3] searched nil
    by simp
  have d: "forEachIndex ?Done ?all (visiting (errorOn ''stop'' 1)) ([], 0) =
     (None, ([exampleIndex 0, exampleIndex 1], 2))"
    using stop [THEN conjunct2, THEN conjunct2, THEN conjunct2, THEN conjunct1, rule_format,
        of ?all "[exampleIndex 0]" "exampleIndex 1" "[exampleIndex 2]" 0 1 "''stop''" 2]
      pre hit
    by simp
  have e: "forEachIndex ?Done ?all (visiting (errorOn ''stop'' 7)) ([], 0) = (None, (?all, 3))"
    using never [THEN conjunct2, THEN conjunct2, THEN conjunct2, THEN conjunct2, THEN conjunct1,
        rule_format, of ?all 0 3] nil
    by simp
  have f: "sorted_wrt (<)
     (map IndexOrdinal
        (fst (snd (ForEachIndex ?Done exampleDesc exampleOpts
                     (visiting (errorOn ''stop'' 1)) ([], 0)))))"
    using stop [THEN conjunct2, THEN conjunct2, THEN conjunct1, rule_format, of 0] canonical
    by simp
  from a b c d e f show ?thesis by simp
qed

subsection \<open>The descriptor behind the interfaces\<close>

lemma newIndex_status:
  "IsMutation (newIndex i (d, st, p)) = IsMutation (maybeMutation st)"
  "IsRollback (newIndex i (d, st, p)) = IsRollback (maybeMutation st)"
  "MutationID (newIndex i (d, st, p)) = MutationID (maybeMutation st)"
  "WriteAndDeleteOnly (newIndex i (d, st, p)) = WriteAndDeleteOnly (maybeMutation st)"
  "DeleteOnly (newIndex i (d, st, p)) = DeleteOnly (maybeMutation st)"
  "Backfilling (newIndex i (d, st, p)) = Backfilling (maybeMutation st)"
  "Merging (newIndex i (d, st, p)) = Merging (maybeMutation st)"
  "Adding (newIndex i (d, st, p)) = Adding (maybeMutation st)"
  "Dropped (newIndex i (d, st, p)) = Dropped (maybeMutation st)"
  by (simp_all add: newIndex_def tableElementMaybeMutation.defs index.defs)

lemma newIndex_fields:
  "IndexDesc (newIndex i (d, st, p)) = d"
  "IndexOrdinal (newIndex i (d, st, p)) = int i"
  "Primary (newIndex i (d, st, p)) = p"
  "IndexPublic (newIndex i (d, st, p)) = (\<not> IsMutation (maybeMutation st))"
  "IndexGetID (newIndex i (d, st, p)) = IndexDescID d"
  by (simp_all add: newIndex_def tableElementMaybeMutation.defs index.defs)

lemma length_allIndexes: "length (allIndexes td) = length (indexEntries td)"
  by (simp add: allIndexes_def)

lemma allIndexes_nth:
  "i < length (indexEntries td) \<Longrightarrow> allIndexes td ! i = newIndex i (indexEntries td ! i)"
  by (simp add: allIndexes_def nth_enumerate_eq)

lemma indexMutations_queued:
  "(d, st) \<in> set (indexMutations ms) \<Longrightarrow> IsMutation (maybeMutation st)"
  by (induction ms) (auto simp: statusOf_def split: mutation_payload.splits)

lemma primary_entry:
  assumes "(d, st, True) \<in> set (indexEntries td)"
  shows "st = PublicElement"
  using assms by (auto simp: indexEntries_def)

lemma allIndexes_primary_public:
  assumes "idx \<in> set (allIndexes td)" and "Primary idx"
  shows "\<not> Adding idx \<and> \<not> Dropped idx"
proof -
  from assms(1) obtain i where i: "i < length (indexEntries td)" "idx = allIndexes td ! i"
    by (auto simp: in_set_conv_nth length_allIndexes)
  obtain d st p where e: "indexEntries td ! i = (d, st, p)"
    by (cases "indexEntries td ! i")
  with i have idx: "idx = newIndex i (d, st, p)" by (simp add: allIndexes_nth)
  with assms(2) have "p" by (simp add: newIndex_fields)
  moreover from i(1) e have "(d, st, p) \<in> set (indexEntries td)"
    by (metis nth_mem)
  ultimately have "st = PublicElement" using primary_entry [of d st td] by simp
  with idx show ?thesis by (simp add: newIndex_status)
qed

lemma allIndexes_example:
  "allIndexes exampleTableDescriptor =
     [newIndex 0 (\<lparr>IndexDescID = 1, IndexDescName = ''primary''\<rparr>, PublicElement, True),
      newIndex 1 (\<lparr>IndexDescID = 2, IndexDescName = ''secondary''\<rparr>, PublicElement, False),
      newIndex 2 (\<lparr>IndexDescID = 3, IndexDescName = ''added''\<rparr>,
        QueuedMutation 1 ADD False BackfillingPhase, False),
      newIndex 3 (\<lparr>IndexDescID = 4, IndexDescName = ''dropped''\<rparr>,
        QueuedMutation 2 DROP False DeleteOnlyPhase, False)]"
  by (simp add: allIndexes_def indexEntries_def exampleTableDescriptor_def statusOf_def
      eval_nat_numeral)


subsection \<open>The search set\<close>

lemma FindIndex_loop_find:
  "FindIndex_loop desc opts xs test =
     List.find (\<lambda>idx. isIndexInSearchSet desc opts idx \<and> test idx) xs"
  by (induction xs) auto

lemma nilRun_always_nil: "nilRun (\<lambda>_ s. (None, s)) xs s = Some s"
  by (induction xs) auto

text \<open>
  C3. For every table descriptor, option set and index, \<open>isIndexInSearchSet\<close> holds
  exactly when none of the three exclusions applies: the index is primary, the table is
  not physical and the option \<open>NonPhysicalPrimaryIndex\<close> is unset; the index is in an
  add mutation and \<open>AddMutations\<close> is unset; the index is in a drop mutation and
  \<open>DropMutations\<close> is unset. \<open>ForEachIndex\<close> visits, and \<open>FindIndex\<close> can find, exactly
  the indexes of \<open>AllIndexes\<close> for which it holds. On a physical table the first
  exclusion never applies, and the primary index of a descriptor, which is a public
  element (in no add or drop mutation), is in the search set whatever the options.
\<close>

theorem search_set_membership:
  "(isIndexInSearchSet desc opts idx \<longleftrightarrow>
      \<not> (Primary idx \<and> \<not> IsPhysicalTable desc \<and> \<not> NonPhysicalPrimaryIndex opts) \<and>
      \<not> (Adding idx \<and> \<not> AddMutations opts) \<and>
      \<not> (Dropped idx \<and> \<not> DropMutations opts)) \<and>
   (idx \<in> set (fst (snd (ForEachIndex Done desc opts (visiting (\<lambda>_ s. (None, s))) ([], s)))) \<longleftrightarrow>
      idx \<in> set (AllIndexes desc) \<and> isIndexInSearchSet desc opts idx) \<and>
   (FindIndex desc opts (\<lambda>y. y = idx) = Some idx \<longleftrightarrow>
      idx \<in> set (AllIndexes desc) \<and> isIndexInSearchSet desc opts idx) \<and>
   (IsPhysicalTable desc \<and> Primary idx \<longrightarrow>
      (isIndexInSearchSet desc opts idx \<longleftrightarrow>
         \<not> (Adding idx \<and> \<not> AddMutations opts) \<and> \<not> (Dropped idx \<and> \<not> DropMutations opts))) \<and>
   (IsPhysicalTable desc \<and> AllIndexes desc = allIndexes td \<and>
    idx \<in> set (AllIndexes desc) \<and> Primary idx \<longrightarrow> isIndexInSearchSet desc opts idx)"
proof -
  have char: "isIndexInSearchSet desc opts idx \<longleftrightarrow>
      \<not> (Primary idx \<and> \<not> IsPhysicalTable desc \<and> \<not> NonPhysicalPrimaryIndex opts) \<and>
      \<not> (Adding idx \<and> \<not> AddMutations opts) \<and>
      \<not> (Dropped idx \<and> \<not> DropMutations opts)"
    by (auto simp: isIndexInSearchSet_def)
  have "ForEachIndex Done desc opts (visiting (\<lambda>_ s. (None, s))) ([], s) =
      (None, (filter (isIndexInSearchSet desc opts) (AllIndexes desc), s))"
    unfolding ForEachIndex_def ForEachIndex_loop_filter
    using forEachIndex_visiting_all_nil [OF nilRun_always_nil, where log = "[]"] by simp
  then have trav: "idx \<in> set (fst (snd (ForEachIndex Done desc opts
        (visiting (\<lambda>_ s. (None, s))) ([], s)))) \<longleftrightarrow>
      idx \<in> set (AllIndexes desc) \<and> isIndexInSearchSet desc opts idx"
    by simp
  have find: "FindIndex desc opts (\<lambda>y. y = idx) = Some idx \<longleftrightarrow>
      idx \<in> set (AllIndexes desc) \<and> isIndexInSearchSet desc opts idx"
  proof -
    have "List.find (\<lambda>y. isIndexInSearchSet desc opts y \<and> y = idx) xs = Some idx \<longleftrightarrow>
        idx \<in> set xs \<and> isIndexInSearchSet desc opts idx" for xs
      by (induction xs) auto
    then show ?thesis by (simp add: FindIndex_def FindIndex_loop_find)
  qed
  have phys: "IsPhysicalTable desc \<and> Primary idx \<longrightarrow>
      (isIndexInSearchSet desc opts idx \<longleftrightarrow>
         \<not> (Adding idx \<and> \<not> AddMutations opts) \<and> \<not> (Dropped idx \<and> \<not> DropMutations opts))"
    by (auto simp: isIndexInSearchSet_def)
  have prim: "IsPhysicalTable desc \<and> AllIndexes desc = allIndexes td \<and>
    idx \<in> set (AllIndexes desc) \<and> Primary idx \<longrightarrow> isIndexInSearchSet desc opts idx"
    using allIndexes_primary_public [of idx td] by (auto simp: isIndexInSearchSet_def)
  from char trav find phys prim show ?thesis by blast
qed

theorem search_set_membership_witness:
  "isIndexInSearchSet mutatingDesc exampleOpts (allIndexes exampleTableDescriptor ! 0) \<and>
   isIndexInSearchSet mutatingDesc exampleOpts (allIndexes exampleTableDescriptor ! 1) \<and>
   \<not> isIndexInSearchSet mutatingDesc exampleOpts (allIndexes exampleTableDescriptor ! 2) \<and>
   isIndexInSearchSet mutatingDesc (exampleOpts\<lparr>AddMutations := True\<rparr>)
     (allIndexes exampleTableDescriptor ! 2) \<and>
   \<not> isIndexInSearchSet mutatingDesc (exampleOpts\<lparr>AddMutations := True\<rparr>)
     (allIndexes exampleTableDescriptor ! 3) \<and>
   \<not> isIndexInSearchSet (mutatingDesc\<lparr>IsPhysicalTable := False\<rparr>) exampleOpts
     (allIndexes exampleTableDescriptor ! 0) \<and>
   FindIndex mutatingDesc exampleOpts (\<lambda>y. y = allIndexes exampleTableDescriptor ! 1) =
     Some (allIndexes exampleTableDescriptor ! 1) \<and>
   FindIndex mutatingDesc exampleOpts (\<lambda>y. y = allIndexes exampleTableDescriptor ! 2) \<noteq>
     Some (allIndexes exampleTableDescriptor ! 2)"
proof -
  let ?all = "allIndexes exampleTableDescriptor"
  let ?add = "exampleOpts\<lparr>AddMutations := True\<rparr>"
  let ?view = "mutatingDesc\<lparr>IsPhysicalTable := False\<rparr>"
  have facts:
    "IsPhysicalTable mutatingDesc" "AllIndexes mutatingDesc = ?all"
    "\<not> IsPhysicalTable ?view"
    "\<not> NonPhysicalPrimaryIndex exampleOpts" "\<not> AddMutations exampleOpts"
    "\<not> DropMutations exampleOpts" "AddMutations ?add" "\<not> DropMutations ?add"
    by (simp_all add: mutatingDesc_def exampleDesc_def exampleOpts_def)
  have sel:
    "Primary (?all ! 0)" "\<not> Primary (?all ! 1)" "\<not> Primary (?all ! 2)"
    "\<not> Adding (?all ! 1)" "\<not> Dropped (?all ! 1)"
    "Adding (?all ! 2)" "\<not> Dropped (?all ! 2)" "Dropped (?all ! 3)"
    by (simp_all add: allIndexes_example newIndex_status newIndex_fields)
  have mem: "?all ! 0 \<in> set ?all" "?all ! 1 \<in> set ?all" "?all ! 2 \<in> set ?all"
    by (simp_all add: allIndexes_example)
  have a: "isIndexInSearchSet mutatingDesc exampleOpts (?all ! 0)"
    using facts sel mem search_set_membership [where desc = mutatingDesc and opts = exampleOpts and idx = "?all ! 0"
        and td = exampleTableDescriptor and Done = "\<lambda>e::unit. True" and s = "()",
        THEN conjunct2, THEN conjunct2, THEN conjunct2, THEN conjunct2]
    by simp
  have b: "isIndexInSearchSet mutatingDesc exampleOpts (?all ! 1)"
    using facts sel search_set_membership [where desc = mutatingDesc and opts = exampleOpts and idx = "?all ! 1"
        and td = exampleTableDescriptor and Done = "\<lambda>e::unit. True" and s = "()", THEN conjunct1]
    by simp
  have c: "\<not> isIndexInSearchSet mutatingDesc exampleOpts (?all ! 2)"
    using facts sel search_set_membership [where desc = mutatingDesc and opts = exampleOpts and idx = "?all ! 2"
        and td = exampleTableDescriptor and Done = "\<lambda>e::unit. True" and s = "()", THEN conjunct1]
    by simp
  have d: "isIndexInSearchSet mutatingDesc ?add (?all ! 2)"
    using facts sel search_set_membership [where desc = mutatingDesc and opts = ?add and idx = "?all ! 2"
        and td = exampleTableDescriptor and Done = "\<lambda>e::unit. True" and s = "()", THEN conjunct1]
    by simp
  have e: "\<not> isIndexInSearchSet mutatingDesc ?add (?all ! 3)"
    using facts sel search_set_membership [where desc = mutatingDesc and opts = ?add and idx = "?all ! 3"
        and td = exampleTableDescriptor and Done = "\<lambda>e::unit. True" and s = "()", THEN conjunct1]
    by simp
  have f: "\<not> isIndexInSearchSet ?view exampleOpts (?all ! 0)"
    using facts sel search_set_membership [where desc = ?view and opts = exampleOpts and idx = "?all ! 0"
        and td = exampleTableDescriptor and Done = "\<lambda>e::unit. True" and s = "()", THEN conjunct1]
    by simp
  have g: "FindIndex mutatingDesc exampleOpts (\<lambda>y. y = ?all ! 1) = Some (?all ! 1)"
    using b facts mem search_set_membership [where desc = mutatingDesc and opts = exampleOpts and idx = "?all ! 1"
        and td = exampleTableDescriptor and Done = "\<lambda>e::unit. True" and s = "()",
        THEN conjunct2, THEN conjunct2, THEN conjunct1]
    by simp
  have h: "FindIndex mutatingDesc exampleOpts (\<lambda>y. y = ?all ! 2) \<noteq> Some (?all ! 2)"
    using c search_set_membership [where desc = mutatingDesc and opts = exampleOpts and idx = "?all ! 2"
        and td = exampleTableDescriptor and Done = "\<lambda>e::unit. True" and s = "()",
        THEN conjunct2, THEN conjunct2, THEN conjunct1]
    by simp
  from a b c d e f g h show ?thesis by blast
qed

subsection \<open>Finding the first match\<close>

lemma findIndex_find: "findIndex slice test = List.find test slice"
  by (induction slice) auto

lemma canonical_nth:
  assumes "canonicalOrdinals desc" and "i < length (AllIndexes desc)"
  shows "IndexOrdinal (AllIndexes desc ! i) = int i"
proof -
  have "map IndexOrdinal (AllIndexes desc) ! i = map int [0..<length (AllIndexes desc)] ! i"
    using assms(1) by (simp add: canonicalOrdinals_def)
  with assms(2) show ?thesis by simp
qed

text \<open>
  C4. For every table descriptor, option set and test, \<open>FindIndex\<close> returns the first
  index, in the order of \<open>AllIndexes\<close> (the order of the ordinals), that is in the search
  set and satisfies the test, and \<open>nil\<close> exactly when no index of the search set satisfies
  the test; \<open>findIndex\<close>, which every variant over a view calls on its view, returns the
  first element of the list that satisfies the test, and \<open>nil\<close> exactly when none does.
\<close>

theorem FindIndex_first_match:
  "(FindIndex desc opts test = None \<longleftrightarrow>
      (\<forall>idx \<in> set (AllIndexes desc). \<not> (isIndexInSearchSet desc opts idx \<and> test idx))) \<and>
   (\<forall>x. FindIndex desc opts test = Some x \<longleftrightarrow>
      (\<exists>i < length (AllIndexes desc).
         x = AllIndexes desc ! i \<and> isIndexInSearchSet desc opts x \<and> test x \<and>
         (\<forall>j < i. \<not> (isIndexInSearchSet desc opts (AllIndexes desc ! j) \<and>
                        test (AllIndexes desc ! j))))) \<and>
   (canonicalOrdinals desc \<longrightarrow>
      (\<forall>x y. FindIndex desc opts test = Some x \<and> y \<in> set (AllIndexes desc) \<and>
             isIndexInSearchSet desc opts y \<and> test y \<longrightarrow> IndexOrdinal x \<le> IndexOrdinal y)) \<and>
   (findIndex slice test = None \<longleftrightarrow> (\<forall>idx \<in> set slice. \<not> test idx)) \<and>
   (\<forall>x. findIndex slice test = Some x \<longleftrightarrow>
      (\<exists>i < length slice. x = slice ! i \<and> test x \<and> (\<forall>j < i. \<not> test (slice ! j)))) \<and>
   FindActiveIndex desc test = findIndex (ActiveIndexes desc) test \<and>
   FindNonDropIndex desc test = findIndex (NonDropIndexes desc) test \<and>
   FindPartialIndex desc test = findIndex (PartialIndexes desc) test \<and>
   FindPublicNonPrimaryIndex desc test = findIndex (PublicNonPrimaryIndexes desc) test \<and>
   FindWritableNonPrimaryIndex desc test = findIndex (WritableNonPrimaryIndexes desc) test \<and>
   FindDeletableNonPrimaryIndex desc test = findIndex (DeletableNonPrimaryIndexes desc) test \<and>
   FindNonPrimaryIndex desc test = findIndex (NonPrimaryIndexes desc) test \<and>
   FindDeleteOnlyNonPrimaryIndex desc test = findIndex (DeleteOnlyNonPrimaryIndexes desc) test"
proof -
  let ?all = "AllIndexes desc"
  let ?P = "\<lambda>idx. isIndexInSearchSet desc opts idx \<and> test idx"
  have F: "FindIndex desc opts test = List.find ?P ?all"
    by (simp add: FindIndex_def FindIndex_loop_find)
  have none: "FindIndex desc opts test = None \<longleftrightarrow> (\<forall>idx \<in> set ?all. \<not> ?P idx)"
    unfolding F find_None_iff by blast
  have some: "FindIndex desc opts test = Some x \<longleftrightarrow>
      (\<exists>i < length ?all. x = ?all ! i \<and> isIndexInSearchSet desc opts x \<and> test x \<and>
         (\<forall>j < i. \<not> ?P (?all ! j)))" for x
    unfolding F find_Some_iff by blast
  have ord: "IndexOrdinal x \<le> IndexOrdinal y"
    if c: "canonicalOrdinals desc" and fx: "FindIndex desc opts test = Some x"
      and y: "y \<in> set ?all" "?P y" for x y
  proof -
    from fx some obtain i where i: "i < length ?all" "x = ?all ! i"
      "\<forall>j < i. \<not> ?P (?all ! j)" by blast
    from y(1) obtain k where k: "k < length ?all" "y = ?all ! k"
      by (auto simp: in_set_conv_nth)
    from i(3) k y(2) have "i \<le> k" by (meson not_le_imp_less)
    with i k canonical_nth [OF c] show ?thesis by simp
  qed
  have fnone: "findIndex slice test = None \<longleftrightarrow> (\<forall>idx \<in> set slice. \<not> test idx)"
    unfolding findIndex_find find_None_iff by blast
  have fsome: "findIndex slice test = Some x \<longleftrightarrow>
      (\<exists>i < length slice. x = slice ! i \<and> test x \<and> (\<forall>j < i. \<not> test (slice ! j)))" for x
    unfolding findIndex_find find_Some_iff by blast
  show ?thesis
    using none some ord fnone fsome
    unfolding FindActiveIndex_def FindNonDropIndex_def FindPartialIndex_def
      FindPublicNonPrimaryIndex_def FindWritableNonPrimaryIndex_def
      FindDeletableNonPrimaryIndex_def FindNonPrimaryIndex_def
      FindDeleteOnlyNonPrimaryIndex_def
    by blast
qed


theorem FindIndex_first_match_witness:
  "FindIndex mutatingDesc exampleOpts (\<lambda>idx. \<not> Primary idx) =
     Some (allIndexes exampleTableDescriptor ! 1) \<and>
   FindIndex mutatingDesc exampleOpts (\<lambda>idx. 2 \<le> IndexOrdinal idx) = None \<and>
   FindIndex mutatingDesc (exampleOpts\<lparr>DropMutations := True\<rparr>) (\<lambda>idx. 2 \<le> IndexOrdinal idx) =
     Some (allIndexes exampleTableDescriptor ! 3) \<and>
   findIndex [exampleIndex 0, exampleIndex 1, exampleIndex 2] (\<lambda>idx. \<not> Primary idx) =
     Some (exampleIndex 1) \<and>
   findIndex [exampleIndex 0, exampleIndex 1, exampleIndex 2] (\<lambda>idx. 5 \<le> IndexOrdinal idx) =
     None \<and>
   FindIndex mutatingDesc (exampleOpts\<lparr>DropMutations := True\<rparr>) (\<lambda>idx. \<not> Primary idx) =
     Some (allIndexes exampleTableDescriptor ! 1) \<and>
   IndexOrdinal (allIndexes exampleTableDescriptor ! 1) \<le>
     IndexOrdinal (allIndexes exampleTableDescriptor ! 3)"
proof -
  let ?all = "allIndexes exampleTableDescriptor"
  let ?drop = "exampleOpts\<lparr>DropMutations := True\<rparr>"
  let ?ex = "[exampleIndex 0, exampleIndex 1, exampleIndex 2]"
  have all: "AllIndexes mutatingDesc = ?all"
    by (simp add: mutatingDesc_def exampleDesc_def)
  have len: "length ?all = 4"
    by (simp add: allIndexes_example)
  have inset: "isIndexInSearchSet mutatingDesc exampleOpts (?all ! 0)"
    "isIndexInSearchSet mutatingDesc exampleOpts (?all ! 1)"
    "\<not> isIndexInSearchSet mutatingDesc exampleOpts (?all ! 2)"
    "\<not> isIndexInSearchSet mutatingDesc exampleOpts (?all ! 3)"
    "isIndexInSearchSet mutatingDesc ?drop (?all ! 0)"
    "isIndexInSearchSet mutatingDesc ?drop (?all ! 1)"
    "\<not> isIndexInSearchSet mutatingDesc ?drop (?all ! 2)"
    "isIndexInSearchSet mutatingDesc ?drop (?all ! 3)"
    by (simp_all add: isIndexInSearchSet_def mutatingDesc_def exampleDesc_def exampleOpts_def
        allIndexes_example newIndex_status newIndex_fields)
  have sel: "Primary (?all ! 0)" "\<not> Primary (?all ! 1)" "\<not> Primary (?all ! 3)"
    "IndexOrdinal (?all ! 0) = 0" "IndexOrdinal (?all ! 1) = 1"
    "IndexOrdinal (?all ! 2) = 2" "IndexOrdinal (?all ! 3) = 3"
    by (simp_all add: allIndexes_example newIndex_fields)
  have set_all: "set ?all = {?all ! 0, ?all ! 1, ?all ! 2, ?all ! 3}"
    by (simp add: allIndexes_example)
  have canonical: "canonicalOrdinals mutatingDesc"
    by (simp add: canonicalOrdinals_def all allIndexes_example newIndex_fields upt_rec)
  have a: "FindIndex mutatingDesc exampleOpts (\<lambda>idx. \<not> Primary idx) = Some (?all ! 1)"
  proof -
    have "\<exists>i < length (AllIndexes mutatingDesc).
         ?all ! 1 = AllIndexes mutatingDesc ! i \<and>
         isIndexInSearchSet mutatingDesc exampleOpts (?all ! 1) \<and> \<not> Primary (?all ! 1) \<and>
         (\<forall>j < i. \<not> (isIndexInSearchSet mutatingDesc exampleOpts (AllIndexes mutatingDesc ! j) \<and>
                        \<not> Primary (AllIndexes mutatingDesc ! j)))"
      unfolding all using inset sel len by (intro exI [of _ 1]) simp
    then show ?thesis
      using FindIndex_first_match [of mutatingDesc exampleOpts "\<lambda>idx. \<not> Primary idx"] by blast
  qed
  have b: "FindIndex mutatingDesc exampleOpts (\<lambda>idx. 2 \<le> IndexOrdinal idx) = None"
  proof -
    have "\<forall>idx \<in> set (AllIndexes mutatingDesc).
        \<not> (isIndexInSearchSet mutatingDesc exampleOpts idx \<and> 2 \<le> IndexOrdinal idx)"
      unfolding all set_all using inset sel by simp
    then show ?thesis
      using FindIndex_first_match [of mutatingDesc exampleOpts "\<lambda>idx. 2 \<le> IndexOrdinal idx"]
      by blast
  qed
  have c: "FindIndex mutatingDesc ?drop (\<lambda>idx. 2 \<le> IndexOrdinal idx) = Some (?all ! 3)"
  proof -
    have "\<exists>i < length (AllIndexes mutatingDesc).
         ?all ! 3 = AllIndexes mutatingDesc ! i \<and>
         isIndexInSearchSet mutatingDesc ?drop (?all ! 3) \<and> 2 \<le> IndexOrdinal (?all ! 3) \<and>
         (\<forall>j < i. \<not> (isIndexInSearchSet mutatingDesc ?drop (AllIndexes mutatingDesc ! j) \<and>
                        2 \<le> IndexOrdinal (AllIndexes mutatingDesc ! j)))"
      unfolding all using inset sel len
      by (intro exI [of _ 3]) (simp add: less_Suc_eq eval_nat_numeral)
    then show ?thesis
      using FindIndex_first_match [of mutatingDesc ?drop "\<lambda>idx. 2 \<le> IndexOrdinal idx"]
      by blast
  qed
  have d: "findIndex ?ex (\<lambda>idx. \<not> Primary idx) = Some (exampleIndex 1)"
  proof -
    have "\<exists>i < length ?ex. exampleIndex 1 = ?ex ! i \<and> \<not> Primary (exampleIndex 1) \<and>
        (\<forall>j < i. \<not> \<not> Primary (?ex ! j))"
      by (intro exI [of _ 1]) (simp add: exampleIndex_def)
    then show ?thesis
      using FindIndex_first_match [of _ _ "\<lambda>idx. \<not> Primary idx" ?ex] by blast
  qed
  have e: "findIndex ?ex (\<lambda>idx. 5 \<le> IndexOrdinal idx) = None"
  proof -
    have "\<forall>idx \<in> set ?ex. \<not> 5 \<le> IndexOrdinal idx"
      by (simp add: exampleIndex_def)
    then show ?thesis
      using FindIndex_first_match [of _ _ "\<lambda>idx. 5 \<le> IndexOrdinal idx" ?ex] by blast
  qed
  have f: "FindIndex mutatingDesc ?drop (\<lambda>idx. \<not> Primary idx) = Some (?all ! 1)"
  proof -
    have "\<exists>i < length (AllIndexes mutatingDesc).
         ?all ! 1 = AllIndexes mutatingDesc ! i \<and>
         isIndexInSearchSet mutatingDesc ?drop (?all ! 1) \<and> \<not> Primary (?all ! 1) \<and>
         (\<forall>j < i. \<not> (isIndexInSearchSet mutatingDesc ?drop (AllIndexes mutatingDesc ! j) \<and>
                        \<not> Primary (AllIndexes mutatingDesc ! j)))"
      unfolding all using inset sel len by (intro exI [of _ 1]) simp
    then show ?thesis
      using FindIndex_first_match [of mutatingDesc ?drop "\<lambda>idx. \<not> Primary idx"] by blast
  qed
  have g: "IndexOrdinal (?all ! 1) \<le> IndexOrdinal (?all ! 3)"
  proof -
    have "?all ! 3 \<in> set (AllIndexes mutatingDesc)"
      unfolding all set_all by simp
    with f canonical inset sel show ?thesis
      using FindIndex_first_match [of mutatingDesc ?drop "\<lambda>idx. \<not> Primary idx"]
      by blast
  qed
  from a b c d e f g show ?thesis by blast
qed

subsection \<open>Comparing the versions of user-defined types\<close>

lemma loop_shift:
  "UserDefinedTypeColsHaveSameVersion_loop (Suc i) cols (c # otherCols) =
     UserDefinedTypeColsHaveSameVersion_loop i cols otherCols"
  by (induction cols arbitrary: i) auto

lemma loop_Cons_Cons:
  "UserDefinedTypeColsHaveSameVersion_loop 0 (c # cols) (c' # otherCols) =
     (if TypeMeta_Version (GetType c) \<noteq> TypeMeta_Version (GetType c') then Inr False
      else UserDefinedTypeColsHaveSameVersion_loop 0 cols otherCols)"
  by (simp add: loop_shift)

lemma loop_Cons_Nil:
  "UserDefinedTypeColsHaveSameVersion_loop 0 (c # cols) [] = Inl IndexOutOfRange"
  by simp

lemma loop_within:
  "length cols \<le> length otherCols \<Longrightarrow>
   UserDefinedTypeColsHaveSameVersion_loop 0 cols otherCols =
     Inr (\<forall>j < length cols.
            TypeMeta_Version (GetType (cols ! j)) = TypeMeta_Version (GetType (otherCols ! j)))"
proof (induction cols arbitrary: otherCols)
  case Nil
  then show ?case by simp
next
  case (Cons c cols)
  then obtain c' rest where other: "otherCols = c' # rest" by (cases otherCols) auto
  with Cons.prems have "length cols \<le> length rest" by simp
  from Cons.IH [OF this] show ?case
    unfolding other loop_Cons_Cons by (auto simp: less_Suc_eq_0_disj)
qed

lemma loop_panic_iff:
  "UserDefinedTypeColsHaveSameVersion_loop 0 cols otherCols = Inl IndexOutOfRange \<longleftrightarrow>
     length otherCols < length cols \<and>
     (\<forall>j < length otherCols.
        TypeMeta_Version (GetType (cols ! j)) = TypeMeta_Version (GetType (otherCols ! j)))"
proof (induction cols arbitrary: otherCols)
  case Nil
  then show ?case by simp
next
  case (Cons c cols)
  show ?case
  proof (cases otherCols)
    case Nil
    then show ?thesis by simp
  next
    case (Cons c' rest)
    show ?thesis
      unfolding Cons loop_Cons_Cons using Cons.IH [of rest]
      by (auto simp: less_Suc_eq_0_disj)
  qed
qed

lemma loop_False_iff:
  "UserDefinedTypeColsHaveSameVersion_loop 0 cols otherCols = Inr False \<longleftrightarrow>
     (\<exists>j. j < length cols \<and> j < length otherCols \<and>
        TypeMeta_Version (GetType (cols ! j)) \<noteq> TypeMeta_Version (GetType (otherCols ! j)) \<and>
        (\<forall>j' < j. TypeMeta_Version (GetType (cols ! j')) =
                     TypeMeta_Version (GetType (otherCols ! j'))))"
proof (induction cols arbitrary: otherCols)
  case Nil
  then show ?case by simp
next
  case (Cons c cols)
  show ?case
  proof (cases otherCols)
    case Nil
    then show ?thesis by simp
  next
    case (Cons c' rest)
    show ?thesis
    proof (cases "ver c = ver c'")
      case False
      then have "UserDefinedTypeColsHaveSameVersion_loop 0 (c # cols) otherCols = Inr False"
        unfolding Cons loop_Cons_Cons by simp
      moreover have "\<exists>j. j < length (c # cols) \<and> j < length otherCols \<and>
          ver ((c # cols) ! j) \<noteq> ver (otherCols ! j) \<and>
          (\<forall>j' < j. ver ((c # cols) ! j') = ver (otherCols ! j'))"
        using False Cons by (intro exI [of _ 0]) simp
      ultimately show ?thesis by simp
    next
      case True
      have "(\<exists>j. j < length (c # cols) \<and> j < length otherCols \<and>
          ver ((c # cols) ! j) \<noteq> ver (otherCols ! j) \<and>
          (\<forall>j' < j. ver ((c # cols) ! j') = ver (otherCols ! j'))) \<longleftrightarrow>
        (\<exists>j. j < length cols \<and> j < length rest \<and>
          ver (cols ! j) \<noteq> ver (rest ! j) \<and>
          (\<forall>j' < j. ver (cols ! j') = ver (rest ! j')))" (is "?L \<longleftrightarrow> ?R")
      proof
        assume ?L
        then obtain j where j: "j < length (c # cols)" "j < length otherCols"
          "ver ((c # cols) ! j) \<noteq> ver (otherCols ! j)"
          "\<forall>j' < j. ver ((c # cols) ! j') = ver (otherCols ! j')" by blast
        with True Cons obtain k where k: "j = Suc k" by (cases j) auto
        from j(4) have "\<forall>j' < k. ver (cols ! j') = ver (rest ! j')"
          unfolding k Cons by (metis Suc_less_eq nth_Cons_Suc)
        with j(1-3) show ?R unfolding k Cons by auto
      next
        assume ?R
        then obtain k where k: "k < length cols" "k < length rest"
          "ver (cols ! k) \<noteq> ver (rest ! k)"
          "\<forall>j' < k. ver (cols ! j') = ver (rest ! j')" by blast
        have "\<forall>j' < Suc k. ver ((c # cols) ! j') = ver (otherCols ! j')"
          using k(4) True unfolding Cons by (auto simp: less_Suc_eq_0_disj)
        with k(1-3) show ?L unfolding Cons by (intro exI [of _ "Suc k"]) simp
      qed
      with True Cons.IH [of rest] show ?thesis
        unfolding Cons loop_Cons_Cons by simp
    qed
  qed
qed

lemma loop_take:
  "UserDefinedTypeColsHaveSameVersion_loop 0 cols (take (length cols) otherCols) =
     UserDefinedTypeColsHaveSameVersion_loop 0 cols otherCols"
proof (induction cols arbitrary: otherCols)
  case Nil
  then show ?case by simp
next
  case (Cons c cols)
  show ?case
  proof (cases otherCols)
    case Nil
    then show ?thesis by simp
  next
    case (Cons c' rest)
    show ?thesis
      unfolding Cons using Cons.IH [of rest] by (simp add: loop_shift)
  qed
qed


lemma UserDefinedTypeColumns_udtDesc: "UserDefinedTypeColumns (udtDesc cols) = cols"
  by (simp add: udtDesc_def)

lemma version_versionedColumn: "TypeMeta_Version (GetType (versionedColumn v)) = v"
  by (simp add: versionedColumn_def)

text \<open>
  C5. For every pair of table descriptors, \<open>UserDefinedTypeColsHaveSameVersion\<close> returns
  false if at some position of both lists of columns with user-defined types the two
  columns' type-metadata versions differ. For two descriptors of the same table at the
  same version the second list is as long as the first; whenever it is at least as long,
  the function returns true when the versions agree at every position of the first
  descriptor's list, and in general returns whether they agree at every such position.
\<close>

theorem UserDefinedTypeColsHaveSameVersion_compares:
  "((\<exists>j. j < length (UserDefinedTypeColumns desc) \<and>
         j < length (UserDefinedTypeColumns otherDesc) \<and>
         TypeMeta_Version (GetType (UserDefinedTypeColumns desc ! j)) \<noteq>
         TypeMeta_Version (GetType (UserDefinedTypeColumns otherDesc ! j))) \<longrightarrow>
      UserDefinedTypeColsHaveSameVersion desc otherDesc = Inr False) \<and>
   (length (UserDefinedTypeColumns desc) \<le> length (UserDefinedTypeColumns otherDesc) \<and>
    (\<forall>j < length (UserDefinedTypeColumns desc).
         TypeMeta_Version (GetType (UserDefinedTypeColumns desc ! j)) =
         TypeMeta_Version (GetType (UserDefinedTypeColumns otherDesc ! j))) \<longrightarrow>
      UserDefinedTypeColsHaveSameVersion desc otherDesc = Inr True) \<and>
   (length (UserDefinedTypeColumns desc) \<le> length (UserDefinedTypeColumns otherDesc) \<longrightarrow>
      UserDefinedTypeColsHaveSameVersion desc otherDesc =
        Inr (\<forall>j < length (UserDefinedTypeColumns desc).
               TypeMeta_Version (GetType (UserDefinedTypeColumns desc ! j)) =
               TypeMeta_Version (GetType (UserDefinedTypeColumns otherDesc ! j))))"
proof -
  let ?cols = "UserDefinedTypeColumns desc" and ?other = "UserDefinedTypeColumns otherDesc"
  have run: "UserDefinedTypeColsHaveSameVersion desc otherDesc =
      UserDefinedTypeColsHaveSameVersion_loop 0 ?cols ?other"
    by (simp add: UserDefinedTypeColsHaveSameVersion_def)
  have differ: "UserDefinedTypeColsHaveSameVersion desc otherDesc = Inr False"
    if "\<exists>j. j < length ?cols \<and> j < length ?other \<and> ver (?cols ! j) \<noteq> ver (?other ! j)"
  proof -
    define P where "P j \<longleftrightarrow> j < length ?cols \<and> j < length ?other \<and>
      ver (?cols ! j) \<noteq> ver (?other ! j)" for j
    from that obtain j where "P j" unfolding P_def by blast
    then have first: "P (LEAST j. P j)"
      by (rule LeastI)
    have least: "\<not> P k" if "k < (LEAST j. P j)" for k
      using that by (rule not_less_Least)
    let ?j = "LEAST j. P j"
    have "\<forall>j' < ?j. ver (?cols ! j') = ver (?other ! j')"
    proof (intro allI impI)
      fix j' assume lt: "j' < ?j"
      with first have "j' < length ?cols" "j' < length ?other" unfolding P_def by auto
      with least [OF lt] show "ver (?cols ! j') = ver (?other ! j')" unfolding P_def by simp
    qed
    with first show ?thesis unfolding run loop_False_iff P_def by blast
  qed
  have within: "UserDefinedTypeColsHaveSameVersion desc otherDesc =
      Inr (\<forall>j < length ?cols. ver (?cols ! j) = ver (?other ! j))"
    if "length ?cols \<le> length ?other"
    unfolding run using that by (rule loop_within)
  from differ within show ?thesis by simp
qed

theorem UserDefinedTypeColsHaveSameVersion_compares_witness:
  "UserDefinedTypeColsHaveSameVersion
     (udtDesc [versionedColumn 1, versionedColumn 2, versionedColumn 3])
     (udtDesc [versionedColumn 1, versionedColumn 5, versionedColumn 3]) = Inr False \<and>
   UserDefinedTypeColsHaveSameVersion
     (udtDesc [versionedColumn 1, versionedColumn 2, versionedColumn 3])
     (udtDesc [versionedColumn 1, versionedColumn 2, versionedColumn 3]) = Inr True"
proof -
  let ?a = "[versionedColumn 1, versionedColumn 2, versionedColumn 3]"
  let ?b = "[versionedColumn 1, versionedColumn 5, versionedColumn 3]"
  have "\<exists>j. j < length (UserDefinedTypeColumns (udtDesc ?a)) \<and>
         j < length (UserDefinedTypeColumns (udtDesc ?b)) \<and>
         TypeMeta_Version (GetType (UserDefinedTypeColumns (udtDesc ?a) ! j)) \<noteq>
         TypeMeta_Version (GetType (UserDefinedTypeColumns (udtDesc ?b) ! j))"
    by (intro exI [of _ 1])
      (simp add: UserDefinedTypeColumns_udtDesc version_versionedColumn)
  then have 1: "UserDefinedTypeColsHaveSameVersion (udtDesc ?a) (udtDesc ?b) = Inr False"
    using UserDefinedTypeColsHaveSameVersion_compares [of "udtDesc ?a" "udtDesc ?b"] by blast
  have "length (UserDefinedTypeColumns (udtDesc ?a)) \<le> length (UserDefinedTypeColumns (udtDesc ?a)) \<and>
    (\<forall>j < length (UserDefinedTypeColumns (udtDesc ?a)).
         TypeMeta_Version (GetType (UserDefinedTypeColumns (udtDesc ?a) ! j)) =
         TypeMeta_Version (GetType (UserDefinedTypeColumns (udtDesc ?a) ! j)))"
    by simp
  then have 2: "UserDefinedTypeColsHaveSameVersion (udtDesc ?a) (udtDesc ?a) = Inr True"
    using UserDefinedTypeColsHaveSameVersion_compares [of "udtDesc ?a" "udtDesc ?a"] by blast
  from 1 2 show ?thesis by simp
qed

text \<open>
  C10 as stated, counterexample. That the function is free of out-of-range accesses only
  when the second list is at least as long as the first fails: with a second list that is
  shorter, a mismatch at a position of the second list returns false before the missing
  position is read.
\<close>

theorem UserDefinedTypeColsHaveSameVersion_shorter_counterexample:
  "UserDefinedTypeColsHaveSameVersion (udtDesc [versionedColumn 1, versionedColumn 2])
       (udtDesc [versionedColumn 9]) = Inr False \<and>
   length (UserDefinedTypeColumns (udtDesc [versionedColumn 9])) <
     length (UserDefinedTypeColumns (udtDesc [versionedColumn 1, versionedColumn 2]))"
  by (simp add: UserDefinedTypeColsHaveSameVersion_def UserDefinedTypeColumns_udtDesc
      version_versionedColumn)


text \<open>
  C10 (amended). \<open>UserDefinedTypeColsHaveSameVersion\<close> is asymmetric in its arguments: it
  indexes the second descriptor's list by the positions of the first descriptor's list.
  It is free of out-of-range accesses whenever the second list is at least as long as the
  first; it panics on an out-of-range access exactly when the second list is shorter and
  the versions agree at every position of the second list (a mismatch there returns false
  first). The columns of the second list beyond the length of the first are never
  compared: the result is the same without them, and appending more changes nothing.
\<close>

theorem UserDefinedTypeColsHaveSameVersion_range:
  "(length (UserDefinedTypeColumns desc) \<le> length (UserDefinedTypeColumns otherDesc) \<longrightarrow>
      UserDefinedTypeColsHaveSameVersion desc otherDesc \<noteq> Inl IndexOutOfRange) \<and>
   (UserDefinedTypeColsHaveSameVersion desc otherDesc = Inl IndexOutOfRange \<longleftrightarrow>
      length (UserDefinedTypeColumns otherDesc) < length (UserDefinedTypeColumns desc) \<and>
      (\<forall>j < length (UserDefinedTypeColumns otherDesc).
         TypeMeta_Version (GetType (UserDefinedTypeColumns desc ! j)) =
         TypeMeta_Version (GetType (UserDefinedTypeColumns otherDesc ! j)))) \<and>
   (length (UserDefinedTypeColumns desc) \<le> length (UserDefinedTypeColumns otherDesc) \<longrightarrow>
      (\<forall>extra. UserDefinedTypeColsHaveSameVersion desc
           (otherDesc\<lparr>UserDefinedTypeColumns := UserDefinedTypeColumns otherDesc @ extra\<rparr>) =
         UserDefinedTypeColsHaveSameVersion desc otherDesc)) \<and>
   UserDefinedTypeColsHaveSameVersion desc otherDesc =
     UserDefinedTypeColsHaveSameVersion desc
       (otherDesc\<lparr>UserDefinedTypeColumns :=
          take (length (UserDefinedTypeColumns desc)) (UserDefinedTypeColumns otherDesc)\<rparr>) \<and>
   UserDefinedTypeColsHaveSameVersion (udtDesc [versionedColumn 1])
       (udtDesc [versionedColumn 1, versionedColumn 2]) \<noteq>
     UserDefinedTypeColsHaveSameVersion (udtDesc [versionedColumn 1, versionedColumn 2])
       (udtDesc [versionedColumn 1])"
proof -
  let ?cols = "UserDefinedTypeColumns desc" and ?other = "UserDefinedTypeColumns otherDesc"
  have run: "UserDefinedTypeColsHaveSameVersion d d' =
      UserDefinedTypeColsHaveSameVersion_loop 0 (UserDefinedTypeColumns d) (UserDefinedTypeColumns d')"
    for d d'
    by (simp add: UserDefinedTypeColsHaveSameVersion_def)
  have safe: "length ?cols \<le> length ?other \<longrightarrow>
      UserDefinedTypeColsHaveSameVersion desc otherDesc \<noteq> Inl IndexOutOfRange"
    unfolding run by (simp add: loop_within)
  have panic: "UserDefinedTypeColsHaveSameVersion desc otherDesc = Inl IndexOutOfRange \<longleftrightarrow>
      length ?other < length ?cols \<and>
      (\<forall>j < length ?other. ver (?cols ! j) = ver (?other ! j))"
    unfolding run by (rule loop_panic_iff)
  have tk: "UserDefinedTypeColsHaveSameVersion desc otherDesc =
     UserDefinedTypeColsHaveSameVersion desc
       (otherDesc\<lparr>UserDefinedTypeColumns := take (length ?cols) ?other\<rparr>)"
    unfolding run by (simp add: loop_take)
  have extra: "length ?cols \<le> length ?other \<longrightarrow>
      (\<forall>extra. UserDefinedTypeColsHaveSameVersion desc
           (otherDesc\<lparr>UserDefinedTypeColumns := ?other @ extra\<rparr>) =
         UserDefinedTypeColsHaveSameVersion desc otherDesc)"
  proof (intro impI allI)
    fix extra
    assume le: "length ?cols \<le> length ?other"
    have "UserDefinedTypeColsHaveSameVersion_loop 0 ?cols (?other @ extra) =
        UserDefinedTypeColsHaveSameVersion_loop 0 ?cols (take (length ?cols) (?other @ extra))"
      by (simp only: loop_take)
    also have "\<dots> = UserDefinedTypeColsHaveSameVersion_loop 0 ?cols (take (length ?cols) ?other)"
      using le by simp
    also have "\<dots> = UserDefinedTypeColsHaveSameVersion_loop 0 ?cols ?other"
      by (simp only: loop_take)
    finally show "UserDefinedTypeColsHaveSameVersion desc
           (otherDesc\<lparr>UserDefinedTypeColumns := ?other @ extra\<rparr>) =
         UserDefinedTypeColsHaveSameVersion desc otherDesc"
      unfolding run by simp
  qed
  have asym: "UserDefinedTypeColsHaveSameVersion (udtDesc [versionedColumn 1])
       (udtDesc [versionedColumn 1, versionedColumn 2]) \<noteq>
     UserDefinedTypeColsHaveSameVersion (udtDesc [versionedColumn 1, versionedColumn 2])
       (udtDesc [versionedColumn 1])"
    unfolding run by (simp add: UserDefinedTypeColumns_udtDesc)
  from safe panic extra tk asym show ?thesis by blast
qed

theorem UserDefinedTypeColsHaveSameVersion_range_witness:
  "UserDefinedTypeColsHaveSameVersion (udtDesc [versionedColumn 1])
       (udtDesc [versionedColumn 1, versionedColumn 2]) = Inr True \<and>
   UserDefinedTypeColsHaveSameVersion (udtDesc [versionedColumn 1, versionedColumn 2])
       (udtDesc [versionedColumn 1]) = Inl IndexOutOfRange \<and>
   UserDefinedTypeColsHaveSameVersion (udtDesc [versionedColumn 1])
       ((udtDesc [versionedColumn 1])\<lparr>UserDefinedTypeColumns :=
          UserDefinedTypeColumns (udtDesc [versionedColumn 1]) @ [versionedColumn 2]\<rparr>) =
     UserDefinedTypeColsHaveSameVersion (udtDesc [versionedColumn 1]) (udtDesc [versionedColumn 1])"
proof -
  let ?short = "udtDesc [versionedColumn 1]"
  let ?long = "udtDesc [versionedColumn 1, versionedColumn 2]"
  note short_long = UserDefinedTypeColsHaveSameVersion_range [of ?short ?long]
  note long_short = UserDefinedTypeColsHaveSameVersion_range [of ?long ?short]
  note short_short = UserDefinedTypeColsHaveSameVersion_range [of ?short ?short]
  have le: "length (UserDefinedTypeColumns ?short) \<le> length (UserDefinedTypeColumns ?long)"
    "length (UserDefinedTypeColumns ?short) \<le> length (UserDefinedTypeColumns ?short)"
    by (simp_all add: UserDefinedTypeColumns_udtDesc)
  have "UserDefinedTypeColsHaveSameVersion ?short ?long \<noteq> Inl IndexOutOfRange"
    using short_long le by blast
  moreover have "UserDefinedTypeColsHaveSameVersion ?short ?long \<noteq> Inr False"
    by (simp add: UserDefinedTypeColsHaveSameVersion_def UserDefinedTypeColumns_udtDesc)
  ultimately have 1: "UserDefinedTypeColsHaveSameVersion ?short ?long = Inr True"
    by (metis (full_types) panic.exhaust sum.exhaust)
  have "length (UserDefinedTypeColumns ?short) < length (UserDefinedTypeColumns ?long) \<and>
      (\<forall>j < length (UserDefinedTypeColumns ?short).
         TypeMeta_Version (GetType (UserDefinedTypeColumns ?long ! j)) =
         TypeMeta_Version (GetType (UserDefinedTypeColumns ?short ! j)))"
    by (simp add: UserDefinedTypeColumns_udtDesc)
  then have 2: "UserDefinedTypeColsHaveSameVersion ?long ?short = Inl IndexOutOfRange"
    using long_short by blast
  have 3: "UserDefinedTypeColsHaveSameVersion ?short
       (?short\<lparr>UserDefinedTypeColumns := UserDefinedTypeColumns ?short @ [versionedColumn 2]\<rparr>) =
     UserDefinedTypeColsHaveSameVersion ?short ?short"
    using short_short le by blast
  from 1 2 3 show ?thesis by simp
qed

subsection \<open>The map from column ids to ordinals\<close>

lemma dom_ColumnIDToOrdinalMap_loop:
  "dom (ColumnIDToOrdinalMap_loop m columns) = dom m \<union> ColumnGetID ` set columns"
  by (induction columns arbitrary: m) auto

lemma ColumnIDToOrdinalMap_loop_other:
  "k \<notin> ColumnGetID ` set columns \<Longrightarrow> ColumnIDToOrdinalMap_loop m columns k = m k"
  by (induction columns arbitrary: m) auto

lemma ColumnIDToOrdinalMap_loop_from_list:
  "k \<in> ColumnGetID ` set columns \<Longrightarrow>
   \<exists>col \<in> set columns. ColumnGetID col = k \<and>
      ColumnIDToOrdinalMap_loop m columns k = Some (ColumnOrdinal col)"
proof (induction columns arbitrary: m)
  case Nil
  then show ?case by simp
next
  case (Cons c columns)
  show ?case
  proof (cases "k \<in> ColumnGetID ` set columns")
    case True
    from Cons.IH [OF True] obtain col where "col \<in> set columns" "ColumnGetID col = k"
      "ColumnIDToOrdinalMap_loop (m(ColumnGetID c \<mapsto> ColumnOrdinal c)) columns k =
         Some (ColumnOrdinal col)"
      by blast
    then have "col \<in> set (c # columns) \<and> ColumnGetID col = k \<and>
      ColumnIDToOrdinalMap_loop m (c # columns) k = Some (ColumnOrdinal col)"
      by simp
    then show ?thesis by blast
  next
    case False
    with Cons.prems have k: "ColumnGetID c = k" by auto
    from False have "ColumnIDToOrdinalMap_loop (m(ColumnGetID c \<mapsto> ColumnOrdinal c)) columns k =
        (m(ColumnGetID c \<mapsto> ColumnOrdinal c)) k"
      by (rule ColumnIDToOrdinalMap_loop_other)
    with k have "c \<in> set (c # columns) \<and> ColumnGetID c = k \<and>
      ColumnIDToOrdinalMap_loop m (c # columns) k = Some (ColumnOrdinal c)"
      by simp
    then show ?thesis by blast
  qed
qed

text \<open>
  C9. For every column list, the map that \<open>ColumnIDToOrdinalMap\<close> returns has exactly
  the column ids of the list as its keys (no other id is mapped), and every id of the list
  is mapped to the \<open>Ordinal()\<close> of a column of the list with that id: of any column with
  that id when the columns that share the id share the ordinal, in particular of the one
  column with that id when the ids of the list are distinct.
\<close>

theorem ColumnIDToOrdinalMap_maps_ids:
  "dom (ColumnIDToOrdinalMap columns) = ColumnGetID ` set columns \<and>
   (\<forall>k. k \<notin> ColumnGetID ` set columns \<longrightarrow> ColumnIDToOrdinalMap columns k = None) \<and>
   (\<forall>k \<in> ColumnGetID ` set columns.
      \<exists>col \<in> set columns. ColumnGetID col = k \<and>
        ColumnIDToOrdinalMap columns k = Some (ColumnOrdinal col)) \<and>
   (\<forall>col \<in> set columns.
      (\<forall>col' \<in> set columns.
         ColumnGetID col' = ColumnGetID col \<longrightarrow> ColumnOrdinal col' = ColumnOrdinal col) \<longrightarrow>
      ColumnIDToOrdinalMap columns (ColumnGetID col) = Some (ColumnOrdinal col)) \<and>
   (distinct (map ColumnGetID columns) \<longrightarrow>
      (\<forall>col \<in> set columns.
         ColumnIDToOrdinalMap columns (ColumnGetID col) = Some (ColumnOrdinal col)))"
proof -
  let ?m = "ColumnIDToOrdinalMap columns"
  have d: "dom ?m = ColumnGetID ` set columns"
    by (simp add: ColumnIDToOrdinalMap_def dom_ColumnIDToOrdinalMap_loop)
  then have none: "\<forall>k. k \<notin> ColumnGetID ` set columns \<longrightarrow> ?m k = None"
    by (metis domIff)
  have some: "\<forall>k \<in> ColumnGetID ` set columns.
      \<exists>col \<in> set columns. ColumnGetID col = k \<and> ?m k = Some (ColumnOrdinal col)"
    unfolding ColumnIDToOrdinalMap_def
    using ColumnIDToOrdinalMap_loop_from_list [of _ columns Map.empty] by blast
  have cons: "\<forall>col \<in> set columns.
      (\<forall>col' \<in> set columns.
         ColumnGetID col' = ColumnGetID col \<longrightarrow> ColumnOrdinal col' = ColumnOrdinal col) \<longrightarrow>
      ?m (ColumnGetID col) = Some (ColumnOrdinal col)"
  proof (intro ballI impI)
    fix col
    assume col: "col \<in> set columns"
      and same: "\<forall>col' \<in> set columns.
         ColumnGetID col' = ColumnGetID col \<longrightarrow> ColumnOrdinal col' = ColumnOrdinal col"
    from col have "ColumnGetID col \<in> ColumnGetID ` set columns" by simp
    with some obtain col' where "col' \<in> set columns" "ColumnGetID col' = ColumnGetID col"
      "?m (ColumnGetID col) = Some (ColumnOrdinal col')" by blast
    with same show "?m (ColumnGetID col) = Some (ColumnOrdinal col)" by simp
  qed
  have dist: "distinct (map ColumnGetID columns) \<longrightarrow>
      (\<forall>col \<in> set columns. ?m (ColumnGetID col) = Some (ColumnOrdinal col))"
  proof (intro impI ballI)
    fix col
    assume distinct: "distinct (map ColumnGetID columns)" and col: "col \<in> set columns"
    have "ColumnOrdinal col' = ColumnOrdinal col"
      if "col' \<in> set columns" "ColumnGetID col' = ColumnGetID col" for col'
    proof -
      from distinct have "inj_on ColumnGetID (set columns)" by (simp add: distinct_map)
      with that col have "col' = col" by (auto dest: inj_onD)
      then show ?thesis by simp
    qed
    with cons col show "?m (ColumnGetID col) = Some (ColumnOrdinal col)" by blast
  qed
  from d none some cons dist show ?thesis by blast
qed

theorem ColumnIDToOrdinalMap_maps_ids_witness:
  "ColumnIDToOrdinalMap [numberedColumn 7 0, numberedColumn 4 1, numberedColumn 9 2] 7 = Some 0 \<and>
   ColumnIDToOrdinalMap [numberedColumn 7 0, numberedColumn 4 1, numberedColumn 9 2] 4 = Some 1 \<and>
   ColumnIDToOrdinalMap [numberedColumn 7 0, numberedColumn 4 1, numberedColumn 9 2] 9 = Some 2 \<and>
   ColumnIDToOrdinalMap [numberedColumn 7 0, numberedColumn 4 1, numberedColumn 9 2] 5 = None \<and>
   dom (ColumnIDToOrdinalMap [numberedColumn 7 0, numberedColumn 4 1, numberedColumn 9 2]) =
     {7, 4, 9}"
proof -
  let ?cols = "[numberedColumn 7 0, numberedColumn 4 1, numberedColumn 9 2]"
  note T = ColumnIDToOrdinalMap_maps_ids [of ?cols]
  have sel: "ColumnGetID (numberedColumn k ordinal) = k"
    "ColumnOrdinal (numberedColumn k ordinal) = ordinal" for k ordinal
    by (simp_all add: numberedColumn_def)
  have ids: "ColumnGetID ` set ?cols = {7, 4, 9}"
    by (simp add: sel)
  have distinct: "distinct (map ColumnGetID ?cols)"
    by (simp add: sel)
  have mem: "numberedColumn 7 0 \<in> set ?cols" "numberedColumn 4 1 \<in> set ?cols"
    "numberedColumn 9 2 \<in> set ?cols"
    by simp_all
  from T distinct have all: "\<forall>col \<in> set ?cols.
      ColumnIDToOrdinalMap ?cols (ColumnGetID col) = Some (ColumnOrdinal col)"
    by blast
  have 1: "ColumnIDToOrdinalMap ?cols 7 = Some 0"
    using all [rule_format, OF mem(1)] by (simp only: sel)
  have 2: "ColumnIDToOrdinalMap ?cols 4 = Some 1"
    using all [rule_format, OF mem(2)] by (simp only: sel)
  have 3: "ColumnIDToOrdinalMap ?cols 9 = Some 2"
    using all [rule_format, OF mem(3)] by (simp only: sel)
  have "(5::nat) \<notin> ColumnGetID ` set ?cols"
    unfolding ids by simp
  with T have 4: "ColumnIDToOrdinalMap ?cols 5 = None" by blast
  from T ids have 5: "dom (ColumnIDToOrdinalMap ?cols) = {7, 4, 9}" by simp
  from 1 2 3 4 5 show ?thesis by simp
qed

subsection \<open>Mutation status of the elements\<close>

lemma newColumn_status:
  "IsMutation (newColumn i (d, st)) = IsMutation (maybeMutation st)"
  "IsRollback (newColumn i (d, st)) = IsRollback (maybeMutation st)"
  "MutationID (newColumn i (d, st)) = MutationID (maybeMutation st)"
  "WriteAndDeleteOnly (newColumn i (d, st)) = WriteAndDeleteOnly (maybeMutation st)"
  "DeleteOnly (newColumn i (d, st)) = DeleteOnly (maybeMutation st)"
  "Backfilling (newColumn i (d, st)) = Backfilling (maybeMutation st)"
  "Merging (newColumn i (d, st)) = Merging (maybeMutation st)"
  "Adding (newColumn i (d, st)) = Adding (maybeMutation st)"
  "Dropped (newColumn i (d, st)) = Dropped (maybeMutation st)"
  by (simp_all add: newColumn_def tableElementMaybeMutation.defs column.defs)

lemma newColumn_fields:
  "ColumnDesc (newColumn i (d, st)) = d"
  "ColumnOrdinal (newColumn i (d, st)) = int i"
  "ColumnPublic (newColumn i (d, st)) = (\<not> IsMutation (maybeMutation st))"
  "ColumnGetID (newColumn i (d, st)) = ColumnDescID d"
  by (simp_all add: newColumn_def tableElementMaybeMutation.defs column.defs)

lemma maybeMutation_cases:
  "(IsMutation (maybeMutation st) \<longrightarrow> MutationID (maybeMutation st) \<noteq> InvalidMutationID) \<and>
   (\<not> IsMutation (maybeMutation st) \<longrightarrow>
      MutationID (maybeMutation st) = InvalidMutationID \<and>
      \<not> DeleteOnly (maybeMutation st) \<and> \<not> WriteAndDeleteOnly (maybeMutation st) \<and>
      \<not> Backfilling (maybeMutation st) \<and> \<not> Merging (maybeMutation st))"
  by (cases st) simp_all

lemma allIndexes_element:
  assumes "idx \<in> set (allIndexes td)"
  obtains i d st p where "idx = newIndex i (d, st, p)"
proof -
  from assms obtain i where i: "i < length (indexEntries td)" "idx = allIndexes td ! i"
    by (auto simp: in_set_conv_nth length_allIndexes)
  obtain d st p where "indexEntries td ! i = (d, st, p)"
    by (cases "indexEntries td ! i")
  with i have "idx = newIndex i (d, st, p)" by (simp add: allIndexes_nth)
  then show ?thesis by (rule that)
qed

lemma length_allColumns: "length (allColumns td) = length (columnEntries td)"
  by (simp add: allColumns_def)

lemma allColumns_nth:
  "i < length (columnEntries td) \<Longrightarrow> allColumns td ! i = newColumn i (columnEntries td ! i)"
  by (simp add: allColumns_def nth_enumerate_eq)

lemma allColumns_element:
  assumes "col \<in> set (allColumns td)"
  obtains i d st where "col = newColumn i (d, st)"
proof -
  from assms obtain i where i: "i < length (columnEntries td)" "col = allColumns td ! i"
    by (auto simp: in_set_conv_nth length_allColumns)
  obtain d st where "columnEntries td ! i = (d, st)"
    by (cases "columnEntries td ! i")
  with i have "col = newColumn i (d, st)" by (simp add: allColumns_nth)
  then show ?thesis by (rule that)
qed

lemma allColumns_example:
  "allColumns exampleTableDescriptor =
     [newColumn 0 (exampleColumnDesc 1, PublicElement),
      newColumn 1 (exampleColumnDesc 2, PublicElement),
      newColumn 2 (exampleColumnDesc 3, QueuedMutation 1 DROP False WriteAndDeleteOnlyPhase)]"
  by (simp add: allColumns_def columnEntries_def exampleTableDescriptor_def statusOf_def
      eval_nat_numeral)

text \<open>
  C6. For every table element (the mutation status is common to columns, indexes,
  constraints and the other mutation payloads): if \<open>IsMutation\<close> is true then
  \<open>MutationID\<close> is not the invalid sentinel; if \<open>IsMutation\<close> is false then \<open>MutationID\<close>
  is the invalid sentinel; and a public element reports none of the sub-phase flags
  \<open>DeleteOnly\<close>, \<open>WriteAndDeleteOnly\<close>, \<open>Backfilling\<close>, \<open>Merging\<close>. This holds of the
  status accessors as the spec describes them, and of every index and every column of a
  descriptor, where public means in no mutation.
\<close>

theorem mutation_status_exclusive:
  "(IsMutation (maybeMutation st) \<longrightarrow> MutationID (maybeMutation st) \<noteq> InvalidMutationID) \<and>
   (\<not> IsMutation (maybeMutation st) \<longrightarrow>
      MutationID (maybeMutation st) = InvalidMutationID \<and>
      \<not> DeleteOnly (maybeMutation st) \<and> \<not> WriteAndDeleteOnly (maybeMutation st) \<and>
      \<not> Backfilling (maybeMutation st) \<and> \<not> Merging (maybeMutation st)) \<and>
   (\<forall>idx \<in> set (allIndexes td).
      (IsMutation idx \<longrightarrow> MutationID idx \<noteq> InvalidMutationID) \<and>
      (\<not> IsMutation idx \<longrightarrow> MutationID idx = InvalidMutationID) \<and>
      (IndexPublic idx \<longleftrightarrow> \<not> IsMutation idx) \<and>
      (IndexPublic idx \<longrightarrow>
         \<not> DeleteOnly idx \<and> \<not> WriteAndDeleteOnly idx \<and> \<not> Backfilling idx \<and> \<not> Merging idx)) \<and>
   (\<forall>col \<in> set (allColumns td).
      (IsMutation col \<longrightarrow> MutationID col \<noteq> InvalidMutationID) \<and>
      (\<not> IsMutation col \<longrightarrow> MutationID col = InvalidMutationID) \<and>
      (ColumnPublic col \<longleftrightarrow> \<not> IsMutation col) \<and>
      (ColumnPublic col \<longrightarrow>
         \<not> DeleteOnly col \<and> \<not> WriteAndDeleteOnly col \<and> \<not> Backfilling col \<and> \<not> Merging col))"
proof (intro conjI ballI)
  fix idx assume "idx \<in> set (allIndexes td)"
  then obtain i d st' p where idx: "idx = newIndex i (d, st', p)"
    by (rule allIndexes_element)
  note m = maybeMutation_cases [of st']
  show "IsMutation idx \<longrightarrow> MutationID idx \<noteq> InvalidMutationID"
    and "\<not> IsMutation idx \<longrightarrow> MutationID idx = InvalidMutationID"
    and "IndexPublic idx \<longleftrightarrow> \<not> IsMutation idx"
    and "IndexPublic idx \<longrightarrow>
         \<not> DeleteOnly idx \<and> \<not> WriteAndDeleteOnly idx \<and> \<not> Backfilling idx \<and> \<not> Merging idx"
    using m unfolding idx newIndex_status newIndex_fields by blast+
next
  fix col assume "col \<in> set (allColumns td)"
  then obtain i d st' where col: "col = newColumn i (d, st')"
    by (rule allColumns_element)
  note m = maybeMutation_cases [of st']
  show "IsMutation col \<longrightarrow> MutationID col \<noteq> InvalidMutationID"
    and "\<not> IsMutation col \<longrightarrow> MutationID col = InvalidMutationID"
    and "ColumnPublic col \<longleftrightarrow> \<not> IsMutation col"
    and "ColumnPublic col \<longrightarrow>
         \<not> DeleteOnly col \<and> \<not> WriteAndDeleteOnly col \<and> \<not> Backfilling col \<and> \<not> Merging col"
    using m unfolding col newColumn_status newColumn_fields by blast+
qed (use maybeMutation_cases [of st] in blast)+


theorem mutation_status_exclusive_witness:
  "MutationID (maybeMutation (QueuedMutation 1 ADD False BackfillingPhase)) \<noteq> InvalidMutationID \<and>
   MutationID (maybeMutation PublicElement) = InvalidMutationID \<and>
   \<not> DeleteOnly (maybeMutation PublicElement) \<and>
   \<not> Backfilling (maybeMutation PublicElement) \<and>
   MutationID (allIndexes exampleTableDescriptor ! 2) \<noteq> InvalidMutationID \<and>
   MutationID (allIndexes exampleTableDescriptor ! 1) = InvalidMutationID \<and>
   \<not> WriteAndDeleteOnly (allIndexes exampleTableDescriptor ! 1) \<and>
   \<not> Merging (allIndexes exampleTableDescriptor ! 1) \<and>
   MutationID (allColumns exampleTableDescriptor ! 2) \<noteq> InvalidMutationID \<and>
   MutationID (allColumns exampleTableDescriptor ! 0) = InvalidMutationID \<and>
   \<not> WriteAndDeleteOnly (allColumns exampleTableDescriptor ! 0)"
proof -
  let ?td = exampleTableDescriptor
  let ?queued = "QueuedMutation 1 ADD False BackfillingPhase"
  note queued = mutation_status_exclusive [of ?queued ?td]
  note public = mutation_status_exclusive [of PublicElement ?td]
  have q: "IsMutation (maybeMutation ?queued)" and p: "\<not> IsMutation (maybeMutation PublicElement)"
    by simp_all
  have mem: "allIndexes ?td ! 1 \<in> set (allIndexes ?td)" "allIndexes ?td ! 2 \<in> set (allIndexes ?td)"
    "allColumns ?td ! 0 \<in> set (allColumns ?td)" "allColumns ?td ! 2 \<in> set (allColumns ?td)"
    by (simp_all add: allIndexes_example allColumns_example)
  have st: "IsMutation (allIndexes ?td ! 2)" "IndexPublic (allIndexes ?td ! 1)"
    "IsMutation (allColumns ?td ! 2)" "ColumnPublic (allColumns ?td ! 0)"
    by (simp_all add: allIndexes_example allColumns_example newIndex_status newIndex_fields
        newColumn_status newColumn_fields)
  from queued q have 1: "MutationID (maybeMutation ?queued) \<noteq> InvalidMutationID" by blast
  from public p have 2: "MutationID (maybeMutation PublicElement) = InvalidMutationID"
    "\<not> DeleteOnly (maybeMutation PublicElement)" "\<not> Backfilling (maybeMutation PublicElement)"
    by blast+
  from public mem(2) st(1) have 3: "MutationID (allIndexes ?td ! 2) \<noteq> InvalidMutationID"
    by blast
  from public mem(1) st(2) have 4: "MutationID (allIndexes ?td ! 1) = InvalidMutationID"
    "\<not> WriteAndDeleteOnly (allIndexes ?td ! 1)" "\<not> Merging (allIndexes ?td ! 1)"
    by blast+
  from public mem(4) st(3) have 5: "MutationID (allColumns ?td ! 2) \<noteq> InvalidMutationID"
    by blast
  from public mem(3) st(4) have 6: "MutationID (allColumns ?td ! 0) = InvalidMutationID"
    "\<not> WriteAndDeleteOnly (allColumns ?td ! 0)"
    by blast+
  from 1 2 3 4 5 6 show ?thesis by blast
qed

subsection \<open>Ordinals\<close>

lemma length_indexEntries:
  "length (indexEntries td) =
     1 + length (Indexes td) + length (indexMutations (Mutations td))"
  by (simp add: indexEntries_def)

lemma indexMutations_queued_nth:
  "j < length (indexMutations ms) \<Longrightarrow>
   IsMutation (maybeMutation (snd (indexMutations ms ! j)))"
  using indexMutations_queued [of "fst (indexMutations ms ! j)" "snd (indexMutations ms ! j)" ms]
  by simp

lemma indexEntries_nth:
  assumes "i < length (indexEntries td)"
  shows "(i = 0 \<and> indexEntries td ! i = (PrimaryIndex td, PublicElement, True)) \<or>
         (1 \<le> i \<and> i < 1 + length (Indexes td) \<and>
            indexEntries td ! i = (Indexes td ! (i - 1), PublicElement, False)) \<or>
         (1 + length (Indexes td) \<le> i \<and>
            (\<exists>d st. indexEntries td ! i = (d, st, False) \<and> IsMutation (maybeMutation st)))"
proof -
  let ?k = "length (Indexes td)"
  let ?ms = "indexMutations (Mutations td)"
  consider "i = 0" | "1 \<le> i" "i < 1 + ?k" | "1 + ?k \<le> i" by linarith
  then show ?thesis
  proof cases
    case 1
    then show ?thesis by (simp add: indexEntries_def)
  next
    case 2
    then obtain j where j: "i = Suc j" "j < ?k" by (cases i) auto
    then have "indexEntries td ! i = (Indexes td ! (i - 1), PublicElement, False)"
      by (simp add: indexEntries_def nth_append)
    with 2 show ?thesis by simp
  next
    case 3
    then obtain j where j: "i = Suc (?k + j)"
      by (metis add.commute le_Suc_ex plus_1_eq_Suc add_Suc_right add_Suc)
    with assms have lt: "j < length ?ms" by (simp add: length_indexEntries)
    from j lt have "indexEntries td ! i = (fst (?ms ! j), snd (?ms ! j), False)"
      by (simp add: indexEntries_def nth_append case_prod_beta)
    with indexMutations_queued_nth [OF lt] 3 show ?thesis by blast
  qed
qed

lemma allIndexes_classify:
  assumes "i < length (allIndexes td)"
  shows "IndexOrdinal (allIndexes td ! i) = int i \<and>
         (Primary (allIndexes td ! i) \<longleftrightarrow> i = 0) \<and>
         (IndexPublic (allIndexes td ! i) \<longleftrightarrow> i < 1 + length (Indexes td)) \<and>
         (IsMutation (allIndexes td ! i) \<longleftrightarrow> 1 + length (Indexes td) \<le> i)"
proof -
  from assms have i: "i < length (indexEntries td)" by (simp add: length_allIndexes)
  obtain d st p where e: "indexEntries td ! i = (d, st, p)"
    by (cases "indexEntries td ! i")
  have idx: "allIndexes td ! i = newIndex i (d, st, p)"
    using i e by (simp add: allIndexes_nth)
  from indexEntries_nth [OF i] e
  have "(i = 0 \<and> p \<and> \<not> IsMutation (maybeMutation st)) \<or>
        (1 \<le> i \<and> i < 1 + length (Indexes td) \<and> \<not> p \<and> \<not> IsMutation (maybeMutation st)) \<or>
        (1 + length (Indexes td) \<le> i \<and> \<not> p \<and> IsMutation (maybeMutation st))"
    by auto
  then show ?thesis
    unfolding idx newIndex_status newIndex_fields by auto
qed

lemma map_IndexDesc_enumerate:
  "map IndexDesc (map (\<lambda>(i, e). newIndex i e) (enumerate n es)) = map fst es"
  by (induction es arbitrary: n) (auto simp: newIndex_fields)

lemma map_IndexDesc_allIndexes:
  "map IndexDesc (allIndexes td) =
     PrimaryIndex td # Indexes td @ map fst (indexMutations (Mutations td))"
  unfolding allIndexes_def map_IndexDesc_enumerate
  by (simp add: indexEntries_def comp_def case_prod_beta)

lemma indexMutations_payloads:
  "map (IndexPayload \<circ> fst) (indexMutations ms) =
     filter is_IndexPayload (map MutationPayload ms)"
  by (induction ms) (auto split: mutation_payload.splits)


lemma columnMutations_queued:
  "(d, st) \<in> set (columnMutations ms) \<Longrightarrow> IsMutation (maybeMutation st)"
  by (induction ms) (auto simp: statusOf_def split: mutation_payload.splits)

lemma length_columnEntries:
  "length (columnEntries td) = length (Columns td) + length (columnMutations (Mutations td))"
  by (simp add: columnEntries_def)

lemma columnEntries_nth:
  assumes "i < length (columnEntries td)"
  shows "(i < length (Columns td) \<and> columnEntries td ! i = (Columns td ! i, PublicElement)) \<or>
         (length (Columns td) \<le> i \<and>
            (\<exists>d st. columnEntries td ! i = (d, st) \<and> IsMutation (maybeMutation st)))"
proof (cases "i < length (Columns td)")
  case True
  then show ?thesis by (simp add: columnEntries_def nth_append)
next
  case False
  let ?ms = "columnMutations (Mutations td)"
  let ?j = "i - length (Columns td)"
  from False assms have lt: "?j < length ?ms" by (simp add: length_columnEntries)
  then have "?ms ! ?j \<in> set ?ms" by (rule nth_mem)
  then have "IsMutation (maybeMutation (snd (?ms ! ?j)))"
    using columnMutations_queued [of "fst (?ms ! ?j)" "snd (?ms ! ?j)"] by simp
  moreover from False have "columnEntries td ! i = (fst (?ms ! ?j), snd (?ms ! ?j))"
    by (simp add: columnEntries_def nth_append)
  ultimately have "\<exists>d st. columnEntries td ! i = (d, st) \<and> IsMutation (maybeMutation st)"
    by blast
  with False show ?thesis by simp
qed

lemma allColumns_classify:
  assumes "i < length (allColumns td)"
  shows "ColumnOrdinal (allColumns td ! i) = int i \<and>
         (ColumnPublic (allColumns td ! i) \<longleftrightarrow> i < length (Columns td)) \<and>
         (IsMutation (allColumns td ! i) \<longleftrightarrow> length (Columns td) \<le> i)"
proof -
  from assms have i: "i < length (columnEntries td)" by (simp add: length_allColumns)
  obtain d st where e: "columnEntries td ! i = (d, st)"
    by (cases "columnEntries td ! i")
  have col: "allColumns td ! i = newColumn i (d, st)"
    using i e by (simp add: allColumns_nth)
  from columnEntries_nth [OF i] e
  have "(i < length (Columns td) \<and> \<not> IsMutation (maybeMutation st)) \<or>
        (length (Columns td) \<le> i \<and> IsMutation (maybeMutation st))"
    by auto
  then show ?thesis
    unfolding col newColumn_status newColumn_fields by auto
qed

lemma map_ColumnDesc_enumerate:
  "map ColumnDesc (map (\<lambda>(i, e). newColumn i e) (enumerate n es)) = map fst es"
  by (induction es arbitrary: n) (auto simp: newColumn_fields)

lemma map_ColumnDesc_allColumns:
  "map ColumnDesc (allColumns td) = Columns td @ map fst (columnMutations (Mutations td))"
  unfolding allColumns_def map_ColumnDesc_enumerate
  by (simp add: columnEntries_def comp_def)

lemma columnMutations_payloads:
  "map (ColumnPayload \<circ> fst) (columnMutations ms) =
     filter is_ColumnPayload (map MutationPayload ms)"
  by (induction ms) (auto split: mutation_payload.splits)

lemma index_ordinals:
  "\<forall>i < length (allIndexes td). IndexOrdinal (allIndexes td ! i) = int i"
  using allIndexes_classify by blast

lemma index_primary:
  "Primary (allIndexes td ! 0) \<and> IndexOrdinal (allIndexes td ! 0) = 0 \<and>
   IndexDesc (allIndexes td ! 0) = PrimaryIndex td"
proof -
  have "0 < length (allIndexes td)" by (simp add: length_allIndexes length_indexEntries)
  from allIndexes_classify [OF this] have "Primary (allIndexes td ! 0)"
    "IndexOrdinal (allIndexes td ! 0) = 0" by simp_all
  moreover have "map IndexDesc (allIndexes td) ! 0 = PrimaryIndex td"
    unfolding map_IndexDesc_allIndexes by simp
  then have "IndexDesc (allIndexes td ! 0) = PrimaryIndex td"
    using \<open>0 < length (allIndexes td)\<close> by simp
  ultimately show ?thesis by simp
qed

lemma index_set_classify:
  assumes "idx \<in> set (allIndexes td)"
  shows "(Primary idx \<longleftrightarrow> IndexOrdinal idx = 0) \<and>
         (IndexPublic idx \<and> \<not> Primary idx \<longleftrightarrow>
            1 \<le> IndexOrdinal idx \<and> IndexOrdinal idx < 1 + int (length (Indexes td))) \<and>
         (IsMutation idx \<longleftrightarrow> 1 + int (length (Indexes td)) \<le> IndexOrdinal idx)"
proof -
  from assms obtain i where i: "i < length (allIndexes td)" "idx = allIndexes td ! i"
    by (auto simp: in_set_conv_nth)
  from allIndexes_classify [OF i(1)] show ?thesis unfolding i(2) by auto
qed

lemma public_non_primary_count:
  "length (filter (\<lambda>idx. IndexPublic idx \<and> \<not> Primary idx) (allIndexes td)) =
     length (Indexes td)"
proof -
  let ?all = "allIndexes td" and ?k = "length (Indexes td)"
  have len: "1 + ?k \<le> length ?all" by (simp add: length_allIndexes length_indexEntries)
  have "{i. i < length ?all \<and> IndexPublic (?all ! i) \<and> \<not> Primary (?all ! i)} = {1..<1 + ?k}"
  proof (intro set_eqI iffI)
    fix i assume "i \<in> {i. i < length ?all \<and> IndexPublic (?all ! i) \<and> \<not> Primary (?all ! i)}"
    then have "i < length ?all" "IndexPublic (?all ! i)" "\<not> Primary (?all ! i)" by simp_all
    with allIndexes_classify [OF this(1)] show "i \<in> {1..<1 + ?k}" by auto
  next
    fix i assume "i \<in> {1..<1 + ?k}"
    then have i: "1 \<le> i" "i < 1 + ?k" by simp_all
    with len have "i < length ?all" by simp
    from allIndexes_classify [OF this] i this
    show "i \<in> {i. i < length ?all \<and> IndexPublic (?all ! i) \<and> \<not> Primary (?all ! i)}" by auto
  qed
  then show ?thesis by (simp add: length_filter_conv_card)
qed

lemma public_indexes_block:
  "map IndexDesc (take (length (Indexes td)) (drop 1 (allIndexes td))) = Indexes td"
proof -
  have "map IndexDesc (take (length (Indexes td)) (drop 1 (allIndexes td))) =
      take (length (Indexes td)) (drop 1 (map IndexDesc (allIndexes td)))"
    by (simp add: take_map drop_map)
  then show ?thesis unfolding map_IndexDesc_allIndexes by simp
qed

lemma mutation_indexes_block:
  "map (IndexPayload \<circ> IndexDesc) (drop (1 + length (Indexes td)) (allIndexes td)) =
     filter is_IndexPayload (map MutationPayload (Mutations td))"
proof -
  have "map IndexDesc (drop (1 + length (Indexes td)) (allIndexes td)) =
      drop (1 + length (Indexes td)) (map IndexDesc (allIndexes td))"
    by (simp add: drop_map)
  then have "map IndexDesc (drop (1 + length (Indexes td)) (allIndexes td)) =
      map fst (indexMutations (Mutations td))"
    unfolding map_IndexDesc_allIndexes by simp
  then have "map IndexPayload (map IndexDesc (drop (1 + length (Indexes td)) (allIndexes td))) =
      map IndexPayload (map fst (indexMutations (Mutations td)))"
    by simp
  then show ?thesis
    using indexMutations_payloads [of "Mutations td"] by (simp add: comp_def)
qed

lemma column_set_classify:
  assumes "col \<in> set (allColumns td)"
  shows "(ColumnPublic col \<longleftrightarrow> ColumnOrdinal col < int (length (Columns td))) \<and>
         (IsMutation col \<longleftrightarrow> int (length (Columns td)) \<le> ColumnOrdinal col)"
proof -
  from assms obtain i where i: "i < length (allColumns td)" "col = allColumns td ! i"
    by (auto simp: in_set_conv_nth)
  from allColumns_classify [OF i(1)] show ?thesis unfolding i(2) by auto
qed

lemma public_column_count:
  "length (filter ColumnPublic (allColumns td)) = length (Columns td)"
proof -
  let ?all = "allColumns td" and ?n = "length (Columns td)"
  have len: "?n \<le> length ?all" by (simp add: length_allColumns length_columnEntries)
  have "{i. i < length ?all \<and> ColumnPublic (?all ! i)} = {0..<?n}"
  proof (intro set_eqI iffI)
    fix i assume "i \<in> {i. i < length ?all \<and> ColumnPublic (?all ! i)}"
    then have "i < length ?all" "ColumnPublic (?all ! i)" by simp_all
    with allColumns_classify [OF this(1)] show "i \<in> {0..<?n}" by auto
  next
    fix i assume "i \<in> {0..<?n}"
    then have i: "i < ?n" by simp
    with len have "i < length ?all" by simp
    from allColumns_classify [OF this] i this
    show "i \<in> {i. i < length ?all \<and> ColumnPublic (?all ! i)}" by auto
  qed
  then show ?thesis by (simp add: length_filter_conv_card)
qed

lemma public_columns_block:
  "map ColumnDesc (take (length (Columns td)) (allColumns td)) = Columns td"
proof -
  have "map ColumnDesc (take (length (Columns td)) (allColumns td)) =
      take (length (Columns td)) (map ColumnDesc (allColumns td))"
    by (simp add: take_map)
  then show ?thesis unfolding map_ColumnDesc_allColumns by simp
qed

lemma mutation_columns_block:
  "map (ColumnPayload \<circ> ColumnDesc) (drop (length (Columns td)) (allColumns td)) =
     filter is_ColumnPayload (map MutationPayload (Mutations td))"
proof -
  have "map ColumnDesc (drop (length (Columns td)) (allColumns td)) =
      drop (length (Columns td)) (map ColumnDesc (allColumns td))"
    by (simp add: drop_map)
  then have "map ColumnDesc (drop (length (Columns td)) (allColumns td)) =
      map fst (columnMutations (Mutations td))"
    unfolding map_ColumnDesc_allColumns by simp
  then have "map ColumnPayload (map ColumnDesc (drop (length (Columns td)) (allColumns td))) =
      map ColumnPayload (map fst (columnMutations (Mutations td)))"
    by simp
  then show ?thesis
    using columnMutations_payloads [of "Mutations td"] by (simp add: comp_def)
qed

text \<open>
  C7. For every table descriptor, with the collections of all indexes and of all columns
  laid out as the spec describes them: each index's ordinal is its position; the primary
  index has ordinal 0; the public non-primary indexes are exactly the indexes with an
  ordinal in \<open>[1, 1 + k)\<close>, where \<open>k\<close> is their number, in the order of the descriptor;
  the indexes in a mutation are exactly those with an ordinal of at least \<open>1 + k\<close>, in the
  order of the mutation queue. Likewise the public columns are exactly the columns with
  an ordinal in \<open>[0, n)\<close>, and the columns in a mutation follow in queue order.
\<close>

lemma length_allIndexes_payloads:
  "length (allIndexes td) =
     1 + length (Indexes td) +
     length (filter is_IndexPayload (map MutationPayload (Mutations td)))"
proof -
  have "length (map (IndexPayload \<circ> fst) (indexMutations (Mutations td))) =
      length (filter is_IndexPayload (map MutationPayload (Mutations td)))"
    by (simp only: indexMutations_payloads)
  then show ?thesis by (simp add: length_allIndexes length_indexEntries)
qed

lemma length_allColumns_payloads:
  "length (allColumns td) =
     length (Columns td) +
     length (filter is_ColumnPayload (map MutationPayload (Mutations td)))"
proof -
  have "length (map (ColumnPayload \<circ> fst) (columnMutations (Mutations td))) =
      length (filter is_ColumnPayload (map MutationPayload (Mutations td)))"
    by (simp only: columnMutations_payloads)
  then show ?thesis by (simp add: length_allColumns length_columnEntries)
qed

theorem ordinal_contiguity:
  "length (allIndexes td) =
     1 + length (Indexes td) +
     length (filter is_IndexPayload (map MutationPayload (Mutations td))) \<and>
   length (allColumns td) =
     length (Columns td) +
     length (filter is_ColumnPayload (map MutationPayload (Mutations td))) \<and>
   (\<forall>i < length (allIndexes td). IndexOrdinal (allIndexes td ! i) = int i) \<and>
   Primary (allIndexes td ! 0) \<and> IndexOrdinal (allIndexes td ! 0) = 0 \<and>
   IndexDesc (allIndexes td ! 0) = PrimaryIndex td \<and>
   (\<forall>idx \<in> set (allIndexes td). Primary idx \<longleftrightarrow> IndexOrdinal idx = 0) \<and>
   (\<forall>idx \<in> set (allIndexes td).
      IndexPublic idx \<and> \<not> Primary idx \<longleftrightarrow>
        1 \<le> IndexOrdinal idx \<and> IndexOrdinal idx < 1 + int (length (Indexes td))) \<and>
   length (filter (\<lambda>idx. IndexPublic idx \<and> \<not> Primary idx) (allIndexes td)) =
     length (Indexes td) \<and>
   map IndexDesc (take (length (Indexes td)) (drop 1 (allIndexes td))) = Indexes td \<and>
   (\<forall>idx \<in> set (allIndexes td).
      IsMutation idx \<longleftrightarrow> 1 + int (length (Indexes td)) \<le> IndexOrdinal idx) \<and>
   map (IndexPayload \<circ> IndexDesc) (drop (1 + length (Indexes td)) (allIndexes td)) =
     filter is_IndexPayload (map MutationPayload (Mutations td)) \<and>
   (\<forall>i < length (allColumns td). ColumnOrdinal (allColumns td ! i) = int i) \<and>
   (\<forall>col \<in> set (allColumns td).
      ColumnPublic col \<longleftrightarrow> ColumnOrdinal col < int (length (Columns td))) \<and>
   length (filter ColumnPublic (allColumns td)) = length (Columns td) \<and>
   map ColumnDesc (take (length (Columns td)) (allColumns td)) = Columns td \<and>
   (\<forall>col \<in> set (allColumns td).
      IsMutation col \<longleftrightarrow> int (length (Columns td)) \<le> ColumnOrdinal col) \<and>
   map (ColumnPayload \<circ> ColumnDesc) (drop (length (Columns td)) (allColumns td)) =
     filter is_ColumnPayload (map MutationPayload (Mutations td))"
  using length_allIndexes_payloads [of td] length_allColumns_payloads [of td]
    index_ordinals [of td] index_primary [of td] index_set_classify [of _ td]
    public_non_primary_count [of td] public_indexes_block [of td] mutation_indexes_block [of td]
    allColumns_classify [of _ td] column_set_classify [of _ td] public_column_count [of td]
    public_columns_block [of td] mutation_columns_block [of td]
  by (intro conjI ballI allI impI) blast+


theorem ordinal_contiguity_witness:
  "IndexOrdinal (allIndexes exampleTableDescriptor ! 0) = 0 \<and>
   Primary (allIndexes exampleTableDescriptor ! 0) \<and>
   IndexOrdinal (allIndexes exampleTableDescriptor ! 1) = 1 \<and>
   IndexPublic (allIndexes exampleTableDescriptor ! 1) \<and>
   \<not> Primary (allIndexes exampleTableDescriptor ! 1) \<and>
   IndexOrdinal (allIndexes exampleTableDescriptor ! 2) = 2 \<and>
   IsMutation (allIndexes exampleTableDescriptor ! 2) \<and>
   IndexOrdinal (allIndexes exampleTableDescriptor ! 3) = 3 \<and>
   IsMutation (allIndexes exampleTableDescriptor ! 3) \<and>
   map IndexDesc (drop 2 (allIndexes exampleTableDescriptor)) =
     [\<lparr>IndexDescID = 3, IndexDescName = ''added''\<rparr>,
      \<lparr>IndexDescID = 4, IndexDescName = ''dropped''\<rparr>] \<and>
   ColumnOrdinal (allColumns exampleTableDescriptor ! 1) = 1 \<and>
   ColumnPublic (allColumns exampleTableDescriptor ! 1) \<and>
   ColumnOrdinal (allColumns exampleTableDescriptor ! 2) = 2 \<and>
   IsMutation (allColumns exampleTableDescriptor ! 2)"
proof -
  let ?td = exampleTableDescriptor
  let ?all = "allIndexes ?td" and ?cols = "allColumns ?td"
  note T = ordinal_contiguity [of ?td]
  have "length ?all = 4" "length ?cols = 3"
    by (simp_all add: allIndexes_example allColumns_example)
  moreover have "length (Indexes ?td) = 1" "length (Columns ?td) = 2"
    by (simp_all add: exampleTableDescriptor_def)
  ultimately have len: "length ?all = 4" "length ?cols = 3" "length (Indexes ?td) = 1"
    "length (Columns ?td) = 2"
    by simp_all
  have mem: "?all ! 1 \<in> set ?all" "?all ! 2 \<in> set ?all" "?all ! 3 \<in> set ?all"
    "?cols ! 1 \<in> set ?cols" "?cols ! 2 \<in> set ?cols"
    by (simp_all add: allIndexes_example allColumns_example)
  from T have ords: "\<forall>i < length ?all. IndexOrdinal (?all ! i) = int i"
    and cords: "\<forall>i < length ?cols. ColumnOrdinal (?cols ! i) = int i"
    by blast+
  from ords len have o: "IndexOrdinal (?all ! 0) = 0" "IndexOrdinal (?all ! 1) = 1"
    "IndexOrdinal (?all ! 2) = 2" "IndexOrdinal (?all ! 3) = 3"
    by simp_all
  from cords len have co: "ColumnOrdinal (?cols ! 1) = 1" "ColumnOrdinal (?cols ! 2) = 2"
    by simp_all
  from T have prim: "Primary (?all ! 0)" by blast
  from T mem(1) have "IndexPublic (?all ! 1) \<and> \<not> Primary (?all ! 1) \<longleftrightarrow>
      1 \<le> IndexOrdinal (?all ! 1) \<and> IndexOrdinal (?all ! 1) < 1 + int (length (Indexes ?td))"
    by blast
  with o len have pub: "IndexPublic (?all ! 1)" "\<not> Primary (?all ! 1)" by simp_all
  from T have muts: "\<forall>idx \<in> set ?all.
      IsMutation idx \<longleftrightarrow> 1 + int (length (Indexes ?td)) \<le> IndexOrdinal idx"
    by blast
  from muts mem(2) o len have m2: "IsMutation (?all ! 2)" by simp
  from muts mem(3) o len have m3: "IsMutation (?all ! 3)" by simp
  from T have "map (IndexPayload \<circ> IndexDesc) (drop (1 + length (Indexes ?td)) ?all) =
     filter is_IndexPayload (map MutationPayload (Mutations ?td))"
    by blast
  moreover have "filter is_IndexPayload (map MutationPayload (Mutations ?td)) =
      map IndexPayload [\<lparr>IndexDescID = 3, IndexDescName = ''added''\<rparr>,
        \<lparr>IndexDescID = 4, IndexDescName = ''dropped''\<rparr>]"
    by (simp add: exampleTableDescriptor_def)
  moreover have "1 + length (Indexes ?td) = 2"
    using len(3) by simp
  ultimately have "map IndexPayload (map IndexDesc (drop 2 ?all)) =
      map IndexPayload [\<lparr>IndexDescID = 3, IndexDescName = ''added''\<rparr>,
        \<lparr>IndexDescID = 4, IndexDescName = ''dropped''\<rparr>]"
    by (simp only: map_map)
  moreover have "inj IndexPayload"
    by (simp add: inj_def)
  ultimately have queue: "map IndexDesc (drop 2 ?all) =
      [\<lparr>IndexDescID = 3, IndexDescName = ''added''\<rparr>,
       \<lparr>IndexDescID = 4, IndexDescName = ''dropped''\<rparr>]"
    by (simp only: inj_map_eq_map)
  from T mem(4) have "ColumnPublic (?cols ! 1) \<longleftrightarrow>
      ColumnOrdinal (?cols ! 1) < int (length (Columns ?td))"
    by blast
  with co len have cpub: "ColumnPublic (?cols ! 1)" by simp
  from T mem(5) have "IsMutation (?cols ! 2) \<longleftrightarrow>
      int (length (Columns ?td)) \<le> ColumnOrdinal (?cols ! 2)"
    by blast
  with co len have cmut: "IsMutation (?cols ! 2)" by simp
  from o prim pub m2 m3 queue co cpub cmut show ?thesis by simp
qed

end
